theory Spec2Isabelle
  imports Main "HOL-Library.Multiset"
begin

section \<open>The message ledger (messages\_repo.py)\<close>

text \<open>
  \<^verbatim>\<open>MessageEntity\<close> is a row of the table \<^verbatim>\<open>messages\<close>. Its only primary-key column is
  \<^verbatim>\<open>message_id\<close>; \<^verbatim>\<open>chat_id\<close> and \<^verbatim>\<open>timestamp\<close> are plain columns. Instants are
  integers (microseconds), which keeps the order of \<^verbatim>\<open>DATETIME\<close> values.
\<close>

record MessageEntity =
  message_id :: int
  chat_id :: int
  timestamp :: int

text \<open>The table is the list of its rows, in insertion order.\<close>

type_synonym messages_table = "MessageEntity list"

text \<open>
  \<^verbatim>\<open>get_chat_messages\<close>: the rows of the chat with \<^verbatim>\<open>timestamp > min_timestamp\<close>,
  \<^verbatim>\<open>ORDER BY timestamp DESC\<close>. SQL leaves the order of rows with equal timestamps open;
  the model keeps them in table order (a stable sort).
\<close>

definition get_chat_messages :: "int \<Rightarrow> int \<Rightarrow> messages_table \<Rightarrow> MessageEntity list" where
  "get_chat_messages c min_timestamp rows =
     sort_key (\<lambda>r. - timestamp r)
       (filter (\<lambda>r. chat_id r = c \<and> min_timestamp < timestamp r) rows)"

text \<open>\<^verbatim>\<open>delete_chat_messages\<close>: \<^verbatim>\<open>DELETE ... WHERE chat_id = :chat_id\<close>.\<close>

definition delete_chat_messages :: "int \<Rightarrow> messages_table \<Rightarrow> messages_table" where
  "delete_chat_messages c rows = filter (\<lambda>r. chat_id r \<noteq> c) rows"

text \<open>
  \<^verbatim>\<open>add_message\<close> is \<^verbatim>\<open>session.merge(message)\<close>: the row with the primary key of
  \<^verbatim>\<open>message\<close> (its \<^verbatim>\<open>message_id\<close>) takes the state of \<^verbatim>\<open>message\<close> where there is one,
  and \<^verbatim>\<open>message\<close> is inserted where there is none.
\<close>

definition add_message :: "MessageEntity \<Rightarrow> messages_table \<Rightarrow> messages_table" where
  "add_message m rows =
     (if list_ex (\<lambda>r. message_id r = message_id m) rows
      then map (\<lambda>r. if message_id r = message_id m then m else r) rows
      else rows @ [m])"

text \<open>\<^verbatim>\<open>remove_message\<close> is \<^verbatim>\<open>session.delete(message)\<close>: the row is deleted by primary key.\<close>

definition remove_message :: "MessageEntity \<Rightarrow> messages_table \<Rightarrow> messages_table" where
  "remove_message m rows = filter (\<lambda>r. message_id r \<noteq> message_id m) rows"

text \<open>\<^verbatim>\<open>update_chat_id\<close>: \<^verbatim>\<open>UPDATE ... SET chat_id = :updated WHERE chat_id = :original\<close>.\<close>

definition update_chat_id :: "int \<Rightarrow> int \<Rightarrow> messages_table \<Rightarrow> messages_table" where
  "update_chat_id original_chat_id updated_chat_id rows =
     map (\<lambda>r. if chat_id r = original_chat_id then r\<lparr>chat_id := updated_chat_id\<rparr> else r) rows"

text \<open>\<^verbatim>\<open>remove_outdated_messages\<close>: \<^verbatim>\<open>DELETE ... WHERE timestamp < :date\<close>.\<close>

definition remove_outdated_messages :: "int \<Rightarrow> messages_table \<Rightarrow> messages_table" where
  "remove_outdated_messages date rows = filter (\<lambda>r. \<not> timestamp r < date) rows"

text \<open>The primary-key constraint of the table: no two rows share a \<^verbatim>\<open>message_id\<close>.\<close>

definition primary_key_ok :: "messages_table \<Rightarrow> bool" where
  "primary_key_ok rows = distinct (map message_id rows)"

section \<open>The transport and the bot's state (cleaner\_bot.py)\<close>

text \<open>
  What the bot reads of a \<^verbatim>\<open>telegram.Message\<close>: \<^verbatim>\<open>message_id\<close>, \<^verbatim>\<open>chat_id\<close>,
  \<^verbatim>\<open>chat.type\<close> and \<^verbatim>\<open>date\<close>.
\<close>

datatype chat_type = PRIVATE | GROUP | SUPERGROUP | CHANNEL

record Message =
  msg_message_id :: int
  msg_chat_id :: int
  msg_chat_type :: chat_type
  msg_date :: int

text \<open>
  The exceptions of the cleanup paths: \<^verbatim>\<open>telegram.error.Unauthorized\<close>, any other exception
  of a transport call (\<^verbatim>\<open>BadRequest\<close>, \<^verbatim>\<open>TimedOut\<close>, \<^verbatim>\<open>NetworkError\<close>, ...), and the
  \<^verbatim>\<open>AttributeError\<close> Python raises for an attribute of \<^verbatim>\<open>None\<close>.
\<close>

datatype exn = Unauthorized | OtherError | AttributeError

text \<open>
  The world outside the bot. Every call is answered by the transport, and the answer may
  differ from call to call: each function takes the number of the interaction (clock
  readings and transport calls of the bot so far) first.
  \<^item> \<^verbatim>\<open>bot.delete_message(chat_id, message_id)\<close> returns a truth value or raises;
  \<^item> \<^verbatim>\<open>bot.send_message(chat_id, text)\<close> returns the sent message or raises;
  \<^item> \<^verbatim>\<open>datetime.utcnow()\<close> reads the clock.
\<close>

record transport =
  delete_message :: "nat \<Rightarrow> int \<Rightarrow> int \<Rightarrow> exn + bool"
  send_message :: "nat \<Rightarrow> int \<Rightarrow> string \<Rightarrow> exn + Message"
  utcnow :: "nat \<Rightarrow> int"

text \<open>
  What the bot does that an observer sees: the log line at the start of
  \<^verbatim>\<open>_chat_cleanup\<close> and the two transport calls.
\<close>

datatype event =
    Initiated int
  | DeleteCall int int
  | SendCall int string

text \<open>
  The state: \<^verbatim>\<open>bot_data['active_groups']\<close> (a set of chat ids),
  \<^verbatim>\<open>bot_data['group_joiner_chats']\<close> (chat id to chat name), the table of the repo, the
  events so far and the number of interactions with the world so far.
\<close>

record bot_state =
  active_groups :: "int set"
  group_joiner_chats :: "int \<rightharpoonup> string"
  messages :: messages_table
  events :: "event list"
  step :: nat

text \<open>\<^verbatim>\<open>_abandon_chat\<close>.\<close>

definition abandon_chat :: "int \<Rightarrow> bot_state \<Rightarrow> bot_state" where
  "abandon_chat c s =
     s\<lparr>active_groups := active_groups s - {c},
       messages := delete_chat_messages c (messages s),
       group_joiner_chats := (group_joiner_chats s)(c := None)\<rparr>"

text \<open>
  \<^verbatim>\<open>_send_status_message\<close>: the sent message; on \<^verbatim>\<open>Unauthorized\<close> the chat is abandoned
  and the method falls off its end, which returns \<^verbatim>\<open>None\<close>; any other exception
  propagates.
\<close>

definition send_status_message ::
  "transport \<Rightarrow> int \<Rightarrow> string \<Rightarrow> bot_state \<Rightarrow> bot_state \<times> (exn + Message option)" where
  "send_status_message env c txt s =
     (let s1 = s\<lparr>events := events s @ [SendCall c txt], step := step s + 1\<rparr> in
      case send_message env (step s) c txt of
        Inr m \<Rightarrow> (s1, Inr (Some m))
      | Inl Unauthorized \<Rightarrow> (abandon_chat c s1, Inr None)
      | Inl e \<Rightarrow> (s1, Inl e))"

text \<open>\<^verbatim>\<open>_handle_chat_id_migration\<close>.\<close>

definition handle_chat_id_migration :: "int \<Rightarrow> int \<Rightarrow> bot_state \<Rightarrow> bot_state" where
  "handle_chat_id_migration old_chat_id new_chat_id s =
     s\<lparr>active_groups := insert new_chat_id (active_groups s - {old_chat_id}),
       messages := update_chat_id old_chat_id new_chat_id (messages s)\<rparr>"

text \<open>
  \<^verbatim>\<open>_retain_message\<close>: \<^verbatim>\<open>message.chat.type\<close> raises \<^verbatim>\<open>AttributeError\<close> when
  \<^verbatim>\<open>message\<close> is \<^verbatim>\<open>None\<close>.
\<close>

definition retain_message :: "Message option \<Rightarrow> bot_state \<Rightarrow> bot_state \<times> exn option" where
  "retain_message message s =
     (case message of
        None \<Rightarrow> (s, Some AttributeError)
      | Some m \<Rightarrow>
          if msg_chat_type m = GROUP \<or> msg_chat_type m = SUPERGROUP
          then (s\<lparr>messages :=
                    add_message \<lparr>message_id = msg_message_id m, chat_id = msg_chat_id m,
                                 timestamp = msg_date m\<rparr> (messages s)\<rparr>, None)
          else (s, None))"

text \<open>\<^verbatim>\<open>_deletion_limit\<close>: \<^verbatim>\<open>datetime.utcnow() - timedelta(days=2)\<close>, in microseconds.\<close>

definition two_days :: int where
  "two_days = 2 * 24 * 60 * 60 * 1000000"

definition deletion_limit :: "transport \<Rightarrow> nat \<Rightarrow> int" where
  "deletion_limit env n = utcnow env n - two_days"

text \<open>Python's \<^verbatim>\<open>str\<close> of a length or a count (a natural number), in decimal.\<close>

fun str_nat :: "nat \<Rightarrow> string" where
  "str_nat n =
     (if n < 10 then [''0123456789'' ! n]
      else str_nat (n div 10) @ [''0123456789'' ! (n mod 10)])"

declare str_nat.simps [simp del]

definition report_message :: "nat \<Rightarrow> nat \<Rightarrow> string" where
  "report_message n_deleted fails_count =
     ''Removed '' @ str_nat n_deleted @ '' recent messages. Failed to remove: ''
       @ str_nat fails_count @ ''.''"

text \<open>
  The loop of \<^verbatim>\<open>_chat_cleanup\<close> over \<^verbatim>\<open>recent_messages\<close>. It returns the state, the
  list \<^verbatim>\<open>deleted_messages\<close> and the flag \<^verbatim>\<open>unauthorized\<close>. \<^verbatim>\<open>Unauthorized\<close> breaks the
  loop; the bare \<^verbatim>\<open>except\<close> takes every other exception and the loop goes on.
\<close>

fun delete_loop ::
  "transport \<Rightarrow> int \<Rightarrow> MessageEntity list \<Rightarrow> MessageEntity list \<Rightarrow> bot_state
     \<Rightarrow> bot_state \<times> MessageEntity list \<times> bool" where
  "delete_loop env c [] deleted_messages s = (s, deleted_messages, False)"
| "delete_loop env c (e # es) deleted_messages s =
     (let s1 = s\<lparr>events := events s @ [DeleteCall c (message_id e)], step := step s + 1\<rparr> in
      case delete_message env (step s) c (message_id e) of
        Inl Unauthorized \<Rightarrow> (s1, deleted_messages, True)
      | Inl _ \<Rightarrow> delete_loop env c es deleted_messages s1
      | Inr deleted \<Rightarrow>
          if deleted
          then delete_loop env c es (deleted_messages @ [e])
                 (s1\<lparr>messages := remove_message e (messages s1)\<rparr>)
          else delete_loop env c es deleted_messages s1)"

text \<open>
  \<^verbatim>\<open>_chat_cleanup\<close>. The result is the state it leaves and the exception it raises, if
  any: what it changed before raising stays changed.
\<close>

definition chat_cleanup :: "transport \<Rightarrow> int \<Rightarrow> bot_state \<Rightarrow> bot_state \<times> exn option" where
  "chat_cleanup env c s =
     (let deletion_threshold = deletion_limit env (step s);
          s0 = s\<lparr>events := events s @ [Initiated c], step := step s + 1\<rparr>;
          recent_messages = get_chat_messages c deletion_threshold (messages s0);
          (s1, deleted_messages, unauthorized) = delete_loop env c recent_messages [] s0
      in if unauthorized then (abandon_chat c s1, None)
         else
           let fails_count = length recent_messages - length deleted_messages;
               (s2, sent) =
                 send_status_message env c
                   (report_message (length deleted_messages) fails_count) s1
           in case sent of
                Inl e \<Rightarrow> (s2, Some e)
              | Inr message \<Rightarrow> retain_message message s2)"

text \<open>
  What the transport answers to the report of \<^verbatim>\<open>_chat_cleanup\<close>: the message
  \<^verbatim>\<open>send_message\<close> returns there, if the cleanup gets as far as sending the report and
  the transport delivers it. It reads the run of \<open>chat_cleanup\<close> and changes nothing.
\<close>

definition sent_report :: "transport \<Rightarrow> int \<Rightarrow> bot_state \<Rightarrow> Message option" where
  "sent_report env c s =
     (let recent_messages = get_chat_messages c (deletion_limit env (step s)) (messages s);
          (s1, deleted_messages, unauthorized) =
            delete_loop env c recent_messages []
              (s\<lparr>events := events s @ [Initiated c], step := step s + 1\<rparr>)
      in if unauthorized then None
         else case send_message env (step s1) c
                     (report_message (length deleted_messages)
                        (length recent_messages - length deleted_messages)) of
                Inr m \<Rightarrow> Some m
              | Inl e \<Rightarrow> None)"

text \<open>
  The loop of \<^verbatim>\<open>_perform_total_cleanup\<close> over the copy of the active set, in the order
  the set yields its elements: \<^verbatim>\<open>try: self._chat_cleanup(...) except: ...\<close> logs whatever
  is raised and goes on with the next chat.
\<close>

fun cleanup_chats :: "transport \<Rightarrow> int list \<Rightarrow> bot_state \<Rightarrow> bot_state" where
  "cleanup_chats env [] s = s"
| "cleanup_chats env (group_chat_id # rest) s =
     (case chat_cleanup env group_chat_id s of
        (s', None) \<Rightarrow> cleanup_chats env rest s'
      | (s', Some e) \<Rightarrow> cleanup_chats env rest s')"

text \<open>
  Two readings of a run of that loop. \<open>chat_limits\<close> lists the deletion limits that the
  cleanups of the chat \<open>c\<close> read from the clock during the loop, and \<open>pass_reports\<close>
  lists the messages the transport returns for the reports sent during the loop.
\<close>

fun chat_limits :: "transport \<Rightarrow> int \<Rightarrow> int list \<Rightarrow> bot_state \<Rightarrow> int list" where
  "chat_limits env c [] s = []"
| "chat_limits env c (group_chat_id # rest) s =
     (if group_chat_id = c then [deletion_limit env (step s)] else [])
       @ chat_limits env c rest (fst (chat_cleanup env group_chat_id s))"

fun pass_reports :: "transport \<Rightarrow> int list \<Rightarrow> bot_state \<Rightarrow> Message list" where
  "pass_reports env [] s = []"
| "pass_reports env (group_chat_id # rest) s =
     (case sent_report env group_chat_id s of None \<Rightarrow> [] | Some m \<Rightarrow> [m])
       @ pass_reports env rest (fst (chat_cleanup env group_chat_id s))"

text \<open>
  \<^verbatim>\<open>active_groups.copy()\<close> as the loop walks it: a list of the active chats, each once.
  Python does not fix the order in which a set yields its elements, so any such list is
  a snapshot.
\<close>

definition snapshot_of :: "int list \<Rightarrow> bot_state \<Rightarrow> bool" where
  "snapshot_of order s = (distinct order \<and> set order = active_groups s)"

text \<open>
  \<^verbatim>\<open>_perform_total_cleanup\<close>, with the order of the snapshot as an argument: the loop over
  the chats, then \<^verbatim>\<open>remove_outdated_messages\<close> with a deletion limit read anew.
\<close>

definition perform_total_cleanup :: "transport \<Rightarrow> int list \<Rightarrow> bot_state \<Rightarrow> bot_state" where
  "perform_total_cleanup env order s =
     (let s1 = cleanup_chats env order s;
          date = deletion_limit env (step s1)
      in s1\<lparr>messages := remove_outdated_messages date (messages s1), step := step s1 + 1\<rparr>)"

text \<open>The transport calls among the events: deletions as (chat, message) pairs.\<close>

fun delete_calls :: "event list \<Rightarrow> (int \<times> int) list" where
  "delete_calls [] = []"
| "delete_calls (DeleteCall c k # evs) = (c, k) # delete_calls evs"
| "delete_calls (_ # evs) = delete_calls evs"

text \<open>The chats whose cleanup was started, in the order of the log lines.\<close>

fun initiated_chats :: "event list \<Rightarrow> int list" where
  "initiated_chats [] = []"
| "initiated_chats (Initiated c # evs) = c # initiated_chats evs"
| "initiated_chats (_ # evs) = initiated_chats evs"

section \<open>Concrete transports and states\<close>

text \<open>
  Inputs on which the theorems below are evaluated. \<open>obliging\<close> deletes every message
  and delivers every report; its clock starts 1000 microseconds after two days and
  advances by one microsecond per interaction, so the first deletion limit is 1000.
\<close>

definition bot_with :: "int set \<Rightarrow> messages_table \<Rightarrow> bot_state" where
  "bot_with groups rows =
     \<lparr>active_groups = groups, group_joiner_chats = Map.empty, messages = rows,
      events = [], step = 0\<rparr>"

definition obliging :: transport where
  "obliging =
     \<lparr>delete_message = (\<lambda>n c k. Inr True),
      send_message = (\<lambda>n c txt. Inr \<lparr>msg_message_id = 900 + int n, msg_chat_id = c,
                                        msg_chat_type = SUPERGROUP,
                                        msg_date = two_days + 1000 + int n\<rparr>),
      utcnow = (\<lambda>n. two_days + 1000 + int n)\<rparr>"

definition kicked_at_third_attempt :: transport where
  "kicked_at_third_attempt =
     obliging\<lparr>delete_message := (\<lambda>n c k. if n = 3 then Inl Unauthorized else Inr True)\<rparr>"

definition kicked_before_report :: transport where
  "kicked_before_report = obliging\<lparr>send_message := (\<lambda>n c txt. Inl Unauthorized)\<rparr>"

definition five_messages :: messages_table where
  "five_messages =
     [\<lparr>message_id = 1, chat_id = 100, timestamp = 5000\<rparr>,
      \<lparr>message_id = 2, chat_id = 100, timestamp = 4000\<rparr>,
      \<lparr>message_id = 3, chat_id = 100, timestamp = 3000\<rparr>,
      \<lparr>message_id = 4, chat_id = 100, timestamp = 2000\<rparr>,
      \<lparr>message_id = 5, chat_id = 100, timestamp = 1500\<rparr>]"

text \<open>
  \<open>report_fails_in_chat_two\<close> raises an error other than \<^verbatim>\<open>Unauthorized\<close> for every
  report to chat 2. \<open>frozen_clock\<close> answers every clock reading with the same instant, so
  that every deletion limit of a pass is 1000. \<open>reusing_message_id\<close> gives the report to
  chat 2 the message id 5: ids are the transport's, and it numbers the messages of
  each supergroup on their own.
\<close>

definition report_fails_in_chat_two :: transport where
  "report_fails_in_chat_two =
     obliging\<lparr>send_message :=
       (\<lambda>n c txt. if c = 2 then Inl OtherError else send_message obliging n c txt)\<rparr>"

definition three_chats :: bot_state where
  "three_chats =
     bot_with {1, 2, 3}
       [\<lparr>message_id = 11, chat_id = 1, timestamp = 2000\<rparr>,
        \<lparr>message_id = 12, chat_id = 2, timestamp = 3000\<rparr>,
        \<lparr>message_id = 13, chat_id = 3, timestamp = 4000\<rparr>,
        \<lparr>message_id = 14, chat_id = 3, timestamp = 500\<rparr>]"

definition frozen_clock :: transport where
  "frozen_clock = obliging\<lparr>utcnow := (\<lambda>n. two_days + 1000)\<rparr>"

definition reusing_message_id :: transport where
  "reusing_message_id =
     frozen_clock\<lparr>send_message :=
       (\<lambda>n c txt. Inr \<lparr>msg_message_id = (if c = 2 then 5 else 900 + int n), msg_chat_id = c,
                           msg_chat_type = SUPERGROUP, msg_date = two_days + 1000\<rparr>)\<rparr>"

definition at_the_limit :: bot_state where
  "at_the_limit =
     bot_with {1, 2}
       [\<lparr>message_id = 5, chat_id = 1, timestamp = 1000\<rparr>,
        \<lparr>message_id = 6, chat_id = 1, timestamp = 3000\<rparr>,
        \<lparr>message_id = 7, chat_id = 2, timestamp = 900\<rparr>]"

section \<open>Facts about the ledger\<close>

lemma add_message_present:
  "list_ex (\<lambda>r. message_id r = message_id m) rows \<Longrightarrow>
   add_message m rows = map (\<lambda>r. if message_id r = message_id m then m else r) rows"
  by (simp add: add_message_def)

lemma add_message_absent:
  "\<not> list_ex (\<lambda>r. message_id r = message_id m) rows \<Longrightarrow> add_message m rows = rows @ [m]"
  by (simp add: add_message_def)

lemma map_message_id_add_message:
  "map message_id (add_message m rows) =
     (if list_ex (\<lambda>r. message_id r = message_id m) rows
      then map message_id rows else map message_id rows @ [message_id m])"
  by (induction rows) (auto simp: add_message_def)

lemma primary_key_ok_add_message:
  "primary_key_ok rows \<Longrightarrow> primary_key_ok (add_message m rows)"
  unfolding primary_key_ok_def map_message_id_add_message
  by (auto simp: list_ex_iff)

lemma filter_other_replaced:
  "message_id m = k \<Longrightarrow>
   filter (\<lambda>r. message_id r \<noteq> k) (map (\<lambda>r. if message_id r = k then m else r) rows) =
   filter (\<lambda>r. message_id r \<noteq> k) rows"
  by (induction rows) auto

lemma filter_other_add_message:
  "filter (\<lambda>r. message_id r \<noteq> message_id m) (add_message m rows) =
   filter (\<lambda>r. message_id r \<noteq> message_id m) rows"
  by (simp add: add_message_def filter_other_replaced)

lemma filter_same_replaced:
  "distinct (map message_id rows) \<Longrightarrow> list_ex (\<lambda>r. message_id r = k) rows \<Longrightarrow> message_id m = k \<Longrightarrow>
   filter (\<lambda>r. message_id r = k) (map (\<lambda>r. if message_id r = k then m else r) rows) = [m]"
proof (induction rows)
  case Nil
  then show ?case by simp
next
  case (Cons a rows)
  show ?case
  proof (cases "message_id a = k")
    case True
    with Cons.prems have "\<forall>r\<in>set rows. message_id r \<noteq> k"
      by (auto simp: image_iff)
    then have "filter (\<lambda>r. message_id r = k) (map (\<lambda>r. if message_id r = k then m else r) rows) = []"
      by (induction rows) auto
    with True Cons.prems show ?thesis by simp
  next
    case False
    with Cons show ?thesis by simp
  qed
qed

lemma filter_same_add_message:
  assumes "primary_key_ok rows"
  shows "filter (\<lambda>r. message_id r = message_id m) (add_message m rows) = [m]"
proof (cases "list_ex (\<lambda>r. message_id r = message_id m) rows")
  case True
  with assms show ?thesis
    by (simp add: add_message_present primary_key_ok_def filter_same_replaced)
next
  case False
  then have "filter (\<lambda>r. message_id r = message_id m) rows = []"
    by (induction rows) auto
  with False show ?thesis
    by (simp add: add_message_absent)
qed

lemma primary_key_ok_remove_message:
  "primary_key_ok rows \<Longrightarrow> primary_key_ok (remove_message m rows)"
  by (simp add: primary_key_ok_def remove_message_def distinct_map_filter)

lemma primary_key_ok_delete_chat_messages:
  "primary_key_ok rows \<Longrightarrow> primary_key_ok (delete_chat_messages c rows)"
  by (simp add: primary_key_ok_def delete_chat_messages_def distinct_map_filter)

lemma primary_key_ok_remove_outdated_messages:
  "primary_key_ok rows \<Longrightarrow> primary_key_ok (remove_outdated_messages d rows)"
  by (simp add: primary_key_ok_def remove_outdated_messages_def distinct_map_filter)

lemma map_message_id_update_chat_id:
  "map message_id (update_chat_id a b rows) = map message_id rows"
  by (induction rows) (auto simp: update_chat_id_def)

lemma primary_key_ok_update_chat_id:
  "primary_key_ok rows \<Longrightarrow> primary_key_ok (update_chat_id a b rows)"
  by (simp add: primary_key_ok_def map_message_id_update_chat_id)

lemma sorted_desc_get_chat_messages:
  "sorted_wrt (\<lambda>a b. timestamp b \<le> timestamp a) (get_chat_messages c t rows)"
proof -
  have "sorted (map (\<lambda>r. - timestamp r) (get_chat_messages c t rows))"
    by (simp add: get_chat_messages_def)
  then show ?thesis
    by (simp add: sorted_map)
qed

lemma mset_get_chat_messages:
  "mset (get_chat_messages c t rows) = mset (filter (\<lambda>r. chat_id r = c \<and> t < timestamp r) rows)"
  by (simp add: get_chat_messages_def)

lemma set_get_chat_messages:
  "set (get_chat_messages c t rows) = {r \<in> set rows. chat_id r = c \<and> t < timestamp r}"
  by (simp add: get_chat_messages_def)

section \<open>Facts about the cleanup\<close>

lemma delete_loop_events:
  "delete_loop env c es d s = (s', d', u) \<Longrightarrow>
   \<exists>k\<le>length es. events s' = events s @ map (\<lambda>e. DeleteCall c (message_id e)) (take k es)
      \<and> (\<not> u \<longrightarrow> k = length es)"
proof (induction es arbitrary: d s)
  case Nil
  then show ?case by simp
next
  case (Cons e es)
  let ?s1 = "s\<lparr>events := events s @ [DeleteCall c (message_id e)], step := step s + 1\<rparr>"
  show ?case
  proof (cases "delete_message env (step s) c (message_id e)")
    case (Inl x)
    show ?thesis
    proof (cases "x = Unauthorized")
      case True
      with Inl Cons.prems have "events s' = events s @ [DeleteCall c (message_id e)]"
        by auto
      then have "events s' = events s @ map (\<lambda>e. DeleteCall c (message_id e)) (take 1 (e # es))"
        by simp
      moreover from True Inl Cons.prems have u by auto
      ultimately show ?thesis
        by (intro exI [of _ 1]) simp
    next
      case False
      with Inl Cons.prems have "delete_loop env c es d ?s1 = (s', d', u)"
        by (cases x) (auto simp: Let_def)
      from Cons.IH [OF this] obtain k where
        "k \<le> length es" "events s' = events ?s1 @ map (\<lambda>e. DeleteCall c (message_id e)) (take k es)"
        "\<not> u \<longrightarrow> k = length es" by blast
      then show ?thesis
        by (intro exI [of _ "Suc k"]) simp
    qed
  next
    case (Inr b)
    let ?s2 = "if b then ?s1\<lparr>messages := remove_message e (messages ?s1)\<rparr> else ?s1"
    let ?d2 = "if b then d @ [e] else d"
    from Inr Cons.prems have "delete_loop env c es ?d2 ?s2 = (s', d', u)"
      by (auto simp: Let_def)
    from Cons.IH [OF this] obtain k where
      "k \<le> length es" "events s' = events ?s2 @ map (\<lambda>e. DeleteCall c (message_id e)) (take k es)"
      "\<not> u \<longrightarrow> k = length es" by blast
    then show ?thesis
      by (intro exI [of _ "Suc k"]) simp
  qed
qed

lemma fields_abandon_chat [simp]:
  "events (abandon_chat c s) = events s"
  "step (abandon_chat c s) = step s"
  "active_groups (abandon_chat c s) = active_groups s - {c}"
  "messages (abandon_chat c s) = delete_chat_messages c (messages s)"
  "group_joiner_chats (abandon_chat c s) = (group_joiner_chats s)(c := None)"
  by (simp_all add: abandon_chat_def)

lemma mem_add_message: "m \<in> set (add_message m rows)"
  by (auto simp: add_message_def list_ex_iff)

lemma delete_calls_append: "delete_calls (xs @ ys) = delete_calls xs @ delete_calls ys"
  by (induction xs rule: delete_calls.induct) simp_all

lemma delete_calls_map_DeleteCall:
  "delete_calls (map (\<lambda>e. DeleteCall c (message_id e)) es) = map (\<lambda>e. (c, message_id e)) es"
  by (induction es) simp_all

lemma chat_cleanup_unfold:
  assumes "delete_loop env c (get_chat_messages c (deletion_limit env (step s)) (messages s)) []
             (s\<lparr>events := events s @ [Initiated c], step := step s + 1\<rparr>) = (s1, d, u)"
  shows "chat_cleanup env c s =
     (if u then (abandon_chat c s1, None)
      else case send_status_message env c
                  (report_message (length d)
                     (length (get_chat_messages c (deletion_limit env (step s)) (messages s)) - length d)) s1 of
             (s2, Inl e) \<Rightarrow> (s2, Some e)
           | (s2, Inr message) \<Rightarrow> retain_message message s2)"
  using assms by (simp add: chat_cleanup_def Let_def split: prod.splits sum.splits)

lemma events_send_status_message:
  "events (fst (send_status_message env c txt s)) = events s @ [SendCall c txt]"
  by (simp add: send_status_message_def Let_def split: sum.splits exn.splits)

lemma events_retain_message: "events (fst (retain_message m s)) = events s"
  by (simp add: retain_message_def split: option.splits)

lemma chat_cleanup_events:
  assumes "delete_loop env c (get_chat_messages c (deletion_limit env (step s)) (messages s)) []
             (s\<lparr>events := events s @ [Initiated c], step := step s + 1\<rparr>) = (s1, d, u)"
  shows "events (fst (chat_cleanup env c s)) =
     (if u then events s1
      else events s1 @ [SendCall c (report_message (length d)
                     (length (get_chat_messages c (deletion_limit env (step s)) (messages s)) - length d))])"
proof (cases u)
  case True
  then show ?thesis by (simp add: chat_cleanup_unfold [OF assms])
next
  case False
  obtain s2 sent where snd: "send_status_message env c
                  (report_message (length d)
                     (length (get_chat_messages c (deletion_limit env (step s)) (messages s)) - length d)) s1 = (s2, sent)"
    by (cases "send_status_message env c
                  (report_message (length d)
                     (length (get_chat_messages c (deletion_limit env (step s)) (messages s)) - length d)) s1")
  have e2: "events s2 = events s1 @ [SendCall c (report_message (length d)
                     (length (get_chat_messages c (deletion_limit env (step s)) (messages s)) - length d))]"
    using events_send_status_message [of env c _ s1] snd
    by (metis fst_conv)
  show ?thesis
    using False e2 events_retain_message
    by (simp add: chat_cleanup_unfold [OF assms] snd split: sum.splits)
qed


lemma delete_loop_no_unauthorized:
  "\<forall>n k. delete_message env n c k \<noteq> Inl Unauthorized \<Longrightarrow>
   delete_loop env c es d s = (s', d', u) \<Longrightarrow> \<not> u"
proof (induction es arbitrary: d s)
  case Nil
  then show ?case by simp
next
  case (Cons e es)
  from Cons.prems(1) have nu: "delete_message env (step s) c (message_id e) \<noteq> Inl Unauthorized"
    by blast
  show ?case
  proof (cases "delete_message env (step s) c (message_id e)")
    case (Inl x)
    with nu have "x \<noteq> Unauthorized" by simp
    with Inl Cons.prems(2) have
      "delete_loop env c es d (s\<lparr>events := events s @ [DeleteCall c (message_id e)], step := step s + 1\<rparr>) = (s', d', u)"
      by (cases x) (auto simp: Let_def)
    with Cons.IH Cons.prems(1) show ?thesis by blast
  next
    case (Inr b)
    with Cons.prems(2) Cons.IH [OF Cons.prems(1)] show ?thesis
      by (cases b) (auto simp: Let_def)
  qed
qed

lemma update_chat_id_twice:
  "update_chat_id a b (update_chat_id a b rows) = update_chat_id a b rows"
  by (induction rows) (auto simp: update_chat_id_def)

lemma report_message_0_0:
  "report_message 0 0 = ''Removed 0 recent messages. Failed to remove: 0.''"
  by (simp add: report_message_def str_nat.simps)

lemma delete_loop_frame:
  "delete_loop env c es d s = (s', d', u) \<Longrightarrow>
   active_groups s' = active_groups s \<and> group_joiner_chats s' = group_joiner_chats s
   \<and> (\<exists>ds. set ds \<subseteq> set es
         \<and> messages s' = filter (\<lambda>r. message_id r \<notin> message_id ` set ds) (messages s))"
proof (induction es arbitrary: d s)
  case Nil
  then have "s' = s" by simp
  then show ?case by (auto intro: exI [of _ "[]"])
next
  case (Cons e es)
  let ?s1 = "s\<lparr>events := events s @ [DeleteCall c (message_id e)], step := step s + 1\<rparr>"
  let ?s2 = "?s1\<lparr>messages := remove_message e (messages ?s1)\<rparr>"
  consider (stop) "s' = ?s1"
    | (skip) "delete_loop env c es d ?s1 = (s', d', u)"
    | (del) "delete_loop env c es (d @ [e]) ?s2 = (s', d', u)"
    using Cons.prems
    by (auto simp: Let_def split: sum.splits exn.splits if_splits)
  then show ?case
  proof cases
    case stop
    then show ?thesis by (auto intro: exI [of _ "[]"])
  next
    case skip
    from Cons.IH [OF skip] obtain ds where "set ds \<subseteq> set es"
      "messages s' = filter (\<lambda>r. message_id r \<notin> message_id ` set ds) (messages ?s1)"
      "active_groups s' = active_groups ?s1" "group_joiner_chats s' = group_joiner_chats ?s1"
      by blast
    then show ?thesis
      by (auto intro!: exI [of _ ds])
  next
    case del
    from Cons.IH [OF del] obtain ds where ds: "set ds \<subseteq> set es"
      "messages s' = filter (\<lambda>r. message_id r \<notin> message_id ` set ds) (messages ?s2)"
      "active_groups s' = active_groups ?s2" "group_joiner_chats s' = group_joiner_chats ?s2"
      by blast
    have "messages s' = filter (\<lambda>r. message_id r \<notin> message_id ` set (e # ds)) (messages s)"
      using ds(2) by (auto simp: remove_message_def intro: filter_cong)
    with ds(1,3,4) show ?thesis
      by (auto intro!: exI [of _ "e # ds"])
  qed
qed

lemma delete_loop_not_unauthorized:
  assumes "delete_message env (step s) c (message_id e) \<noteq> Inl Unauthorized"
  shows "\<exists>s1 d1. delete_loop env c (e # es) d s = delete_loop env c es d1 s1
           \<and> events s1 = events s @ [DeleteCall c (message_id e)]
           \<and> step s1 = step s + 1"
proof (cases "delete_message env (step s) c (message_id e)")
  case (Inl x)
  with assms have "x \<noteq> Unauthorized" by simp
  with Inl have "delete_loop env c (e # es) d s
      = delete_loop env c es d (s\<lparr>events := events s @ [DeleteCall c (message_id e)], step := step s + 1\<rparr>)"
    by (cases x) simp_all
  then show ?thesis
    by (intro exI [of _ "s\<lparr>events := events s @ [DeleteCall c (message_id e)], step := step s + 1\<rparr>"]
          exI [of _ d]) simp
next
  case (Inr b)
  show ?thesis
  proof (cases b)
    case True
    with Inr have "delete_loop env c (e # es) d s
      = delete_loop env c es (d @ [e])
          (s\<lparr>events := events s @ [DeleteCall c (message_id e)], step := step s + 1,
             messages := remove_message e (messages s)\<rparr>)"
      by simp
    then show ?thesis
      by (intro exI [of _ "s\<lparr>events := events s @ [DeleteCall c (message_id e)], step := step s + 1,
             messages := remove_message e (messages s)\<rparr>"] exI [of _ "d @ [e]"]) simp
  next
    case False
    with Inr have "delete_loop env c (e # es) d s
      = delete_loop env c es d (s\<lparr>events := events s @ [DeleteCall c (message_id e)], step := step s + 1\<rparr>)"
      by simp
    then show ?thesis
      by (intro exI [of _ "s\<lparr>events := events s @ [DeleteCall c (message_id e)], step := step s + 1\<rparr>"]
          exI [of _ d]) simp
  qed
qed

lemma delete_loop_unauthorized:
  assumes "delete_message env (step s) c (message_id e) = Inl Unauthorized"
  shows "delete_loop env c (e # es) d s
      = (s\<lparr>events := events s @ [DeleteCall c (message_id e)], step := step s + 1\<rparr>, d, True)"
  using assms by simp

lemma delete_chat_messages_after_loop:
  assumes pk: "primary_key_ok rows"
    and ds: "set ds \<subseteq> {r \<in> set rows. chat_id r = c}"
  shows "delete_chat_messages c (filter (\<lambda>r. message_id r \<notin> message_id ` set ds) rows)
       = delete_chat_messages c rows"
proof -
  have "\<And>r. r \<in> set rows \<Longrightarrow> chat_id r \<noteq> c \<Longrightarrow> message_id r \<notin> message_id ` set ds"
  proof
    fix r assume r: "r \<in> set rows" "chat_id r \<noteq> c" "message_id r \<in> message_id ` set ds"
    then obtain e where e: "e \<in> set ds" "message_id e = message_id r" by auto
    with ds have "e \<in> set rows" "chat_id e = c" by auto
    with pk r(1) e(2) have "e = r"
      unfolding primary_key_ok_def by (meson distinct_map inj_onD)
    with \<open>chat_id e = c\<close> r(2) show False by simp
  qed
  then show ?thesis
    unfolding delete_chat_messages_def
    by (auto intro: filter_cong)
qed


lemma five_messages_recent:
  "get_chat_messages 100 (deletion_limit kicked_at_third_attempt 0) five_messages =
     [\<lparr>message_id = 1, chat_id = 100, timestamp = 5000\<rparr>,
      \<lparr>message_id = 2, chat_id = 100, timestamp = 4000\<rparr>,
      \<lparr>message_id = 3, chat_id = 100, timestamp = 3000\<rparr>,
      \<lparr>message_id = 4, chat_id = 100, timestamp = 2000\<rparr>,
      \<lparr>message_id = 5, chat_id = 100, timestamp = 1500\<rparr>]"
  by (simp add: get_chat_messages_def deletion_limit_def kicked_at_third_attempt_def obliging_def
      five_messages_def)

lemma initiated_chats_append:
  "initiated_chats (xs @ ys) = initiated_chats xs @ initiated_chats ys"
  by (induction xs rule: initiated_chats.induct) simp_all

lemma initiated_chats_map_DeleteCall:
  "initiated_chats (map (\<lambda>e. DeleteCall c (message_id e)) es) = []"
  by (induction es) simp_all

lemma initiated_chats_chat_cleanup:
  "initiated_chats (events (fst (chat_cleanup env c s))) = initiated_chats (events s) @ [c]"
proof -
  let ?recent = "get_chat_messages c (deletion_limit env (step s)) (messages s)"
  let ?s0 = "s\<lparr>events := events s @ [Initiated c], step := step s + 1\<rparr>"
  obtain s1 d u where dl: "delete_loop env c ?recent [] ?s0 = (s1, d, u)"
    by (cases "delete_loop env c ?recent [] ?s0") auto
  from delete_loop_events [OF dl] obtain k where
    "events s1 = events ?s0 @ map (\<lambda>e. DeleteCall c (message_id e)) (take k ?recent)"
    by blast
  then show ?thesis
    by (simp add: chat_cleanup_events [OF dl] initiated_chats_append initiated_chats_map_DeleteCall)
qed

lemma cleanup_chats_Cons:
  "cleanup_chats env (c # cs) s = cleanup_chats env cs (fst (chat_cleanup env c s))"
  by (cases "chat_cleanup env c s") (auto split: option.splits)

lemma cleanup_chats_append:
  "cleanup_chats env (xs @ ys) s = cleanup_chats env ys (cleanup_chats env xs s)"
  by (induction xs arbitrary: s) (simp_all only: cleanup_chats_Cons cleanup_chats.simps(1) append.simps)

lemma initiated_chats_cleanup_chats:
  "initiated_chats (events (cleanup_chats env cs s)) = initiated_chats (events s) @ cs"
proof (induction cs arbitrary: s)
  case Nil
  then show ?case by simp
next
  case (Cons c cs)
  show ?case
    by (simp only: cleanup_chats_Cons Cons.IH initiated_chats_chat_cleanup) simp
qed

lemma fields_perform_total_cleanup:
  "events (perform_total_cleanup env order s) = events (cleanup_chats env order s)"
  "active_groups (perform_total_cleanup env order s) = active_groups (cleanup_chats env order s)"
  "messages (perform_total_cleanup env order s)
     = remove_outdated_messages (deletion_limit env (step (cleanup_chats env order s)))
         (messages (cleanup_chats env order s))"
  by (simp_all add: perform_total_cleanup_def Let_def)

lemma mem_add_message_other:
  "r \<in> set rows \<Longrightarrow> message_id m \<noteq> message_id r \<Longrightarrow> r \<in> set (add_message m rows)"
  by (auto simp: add_message_def)

lemma chat_cleanup_cases:
  obtains (abandoned) ds where
      "set ds \<subseteq> set (get_chat_messages c (deletion_limit env (step s)) (messages s))"
      "messages (fst (chat_cleanup env c s))
         = delete_chat_messages c (filter (\<lambda>r. message_id r \<notin> message_id ` set ds) (messages s))"
      "active_groups (fst (chat_cleanup env c s)) = active_groups s - {c}"
  | (unreported) ds where
      "set ds \<subseteq> set (get_chat_messages c (deletion_limit env (step s)) (messages s))"
      "messages (fst (chat_cleanup env c s))
         = filter (\<lambda>r. message_id r \<notin> message_id ` set ds) (messages s)"
      "active_groups (fst (chat_cleanup env c s)) = active_groups s"
  | (reported) ds m where
      "set ds \<subseteq> set (get_chat_messages c (deletion_limit env (step s)) (messages s))"
      "sent_report env c s = Some m"
      "messages (fst (chat_cleanup env c s))
         = add_message \<lparr>message_id = msg_message_id m, chat_id = msg_chat_id m,
                         timestamp = msg_date m\<rparr>
             (filter (\<lambda>r. message_id r \<notin> message_id ` set ds) (messages s))"
      "active_groups (fst (chat_cleanup env c s)) = active_groups s"
proof -
  let ?recent = "get_chat_messages c (deletion_limit env (step s)) (messages s)"
  let ?s0 = "s\<lparr>events := events s @ [Initiated c], step := step s + 1\<rparr>"
  obtain s1 d u where dl: "delete_loop env c ?recent [] ?s0 = (s1, d, u)"
    by (cases "delete_loop env c ?recent [] ?s0") auto
  from delete_loop_frame [OF dl] obtain ds where ds: "set ds \<subseteq> set ?recent"
    "messages s1 = filter (\<lambda>r. message_id r \<notin> message_id ` set ds) (messages s)"
    "active_groups s1 = active_groups s"
    by auto
  let ?report = "report_message (length d) (length ?recent - length d)"
  let ?s2 = "s1\<lparr>events := events s1 @ [SendCall c ?report], step := step s1 + 1\<rparr>"
  show ?thesis
  proof (cases u)
    case True
    then have "chat_cleanup env c s = (abandon_chat c s1, None)"
      by (simp add: chat_cleanup_unfold [OF dl])
    with ds show ?thesis
      by (intro abandoned [of ds]) simp_all
  next
    case False
    show ?thesis
    proof (cases "send_message env (step s1) c ?report")
      case (Inl x)
      show ?thesis
      proof (cases "x = Unauthorized")
        case True
        with Inl False have "chat_cleanup env c s = (abandon_chat c ?s2, Some AttributeError)"
          by (simp add: chat_cleanup_unfold [OF dl] send_status_message_def retain_message_def)
        with ds show ?thesis
          by (intro abandoned [of ds]) simp_all
      next
        case neq: False
        with Inl False have "chat_cleanup env c s = (?s2, Some x)"
          by (cases x) (simp_all add: chat_cleanup_unfold [OF dl] send_status_message_def)
        with ds show ?thesis
          by (intro unreported [of ds]) simp_all
      qed
    next
      case (Inr m)
      with False have cc: "chat_cleanup env c s = retain_message (Some m) ?s2"
        by (simp add: chat_cleanup_unfold [OF dl] send_status_message_def)
      show ?thesis
      proof (cases "msg_chat_type m = GROUP \<or> msg_chat_type m = SUPERGROUP")
        case True
        moreover from dl Inr \<open>\<not> u\<close> have "sent_report env c s = Some m"
          by (simp add: sent_report_def)
        ultimately show ?thesis
          using ds by (intro reported [of ds m]) (simp_all add: cc retain_message_def)
      next
        case False
        with ds show ?thesis
          by (intro unreported [of ds]) (simp_all add: cc retain_message_def)
      qed
    qed
  qed
qed

lemma primary_key_ok_filter:
  "primary_key_ok rows \<Longrightarrow> primary_key_ok (filter P rows)"
  by (simp add: primary_key_ok_def distinct_map_filter)

lemma chat_cleanup_frame:
  assumes "primary_key_ok (messages s)"
  shows "primary_key_ok (messages (fst (chat_cleanup env c s)))
       \<and> active_groups (fst (chat_cleanup env c s)) \<subseteq> active_groups s"
proof (cases rule: chat_cleanup_cases [of c env s])
  case (abandoned ds)
  with assms show ?thesis
    by (simp add: primary_key_ok_filter primary_key_ok_delete_chat_messages)
next
  case (unreported ds)
  with assms show ?thesis
    by (simp add: primary_key_ok_filter)
next
  case (reported ds m)
  with assms show ?thesis
    by (simp add: primary_key_ok_filter primary_key_ok_add_message)
qed

lemma cleanup_chats_frame:
  "primary_key_ok (messages s) \<Longrightarrow>
   primary_key_ok (messages (cleanup_chats env cs s))
   \<and> active_groups (cleanup_chats env cs s) \<subseteq> active_groups s"
proof (induction cs arbitrary: s)
  case Nil
  then show ?case by simp
next
  case (Cons c cs)
  from chat_cleanup_frame [OF Cons.prems, of env c]
  have f: "primary_key_ok (messages (fst (chat_cleanup env c s)))"
    "active_groups (fst (chat_cleanup env c s)) \<subseteq> active_groups s" by simp_all
  from Cons.IH [OF f(1)] f(2) show ?case
    by (simp only: cleanup_chats_Cons) blast
qed

lemma chat_cleanup_keeps:
  assumes pk: "primary_key_ok (messages s)"
    and r: "r \<in> set (messages s)"
    and not_eligible: "\<not> (chat_id r = c \<and> deletion_limit env (step s) < timestamp r)"
    and ids: "\<forall>m. sent_report env c s = Some m \<longrightarrow> msg_message_id m \<noteq> message_id r"
  shows "r \<in> set (messages (fst (chat_cleanup env c s)))
       \<or> (chat_id r = c \<and> c \<notin> active_groups (fst (chat_cleanup env c s)))"
proof -
  have kept: "r \<in> set (filter (\<lambda>r. message_id r \<notin> message_id ` set ds) (messages s))"
    if ds: "set ds \<subseteq> set (get_chat_messages c (deletion_limit env (step s)) (messages s))" for ds
  proof -
    have "message_id r \<notin> message_id ` set ds"
    proof
      assume "message_id r \<in> message_id ` set ds"
      then obtain e where e: "e \<in> set ds" "message_id e = message_id r" by auto
      with ds have e': "e \<in> set (messages s)" "chat_id e = c"
        "deletion_limit env (step s) < timestamp e"
        by (auto simp: set_get_chat_messages)
      from pk r e'(1) e(2) have "e = r"
        unfolding primary_key_ok_def by (meson distinct_map inj_onD)
      with e' not_eligible show False by simp
    qed
    with r show ?thesis by simp
  qed
  show ?thesis
  proof (cases rule: chat_cleanup_cases [of c env s])
    case (abandoned ds)
    with kept [OF abandoned(1)] show ?thesis
      by (auto simp: delete_chat_messages_def)
  next
    case (unreported ds)
    with kept [OF unreported(1)] show ?thesis by simp
  next
    case (reported ds m)
    from ids reported(2) have "msg_message_id m \<noteq> message_id r" by blast
    with kept [OF reported(1)] reported(3) show ?thesis
      using mem_add_message_other by simp
  qed
qed

lemma chat_cleanup_delete_calls:
  "\<exists>k. delete_calls (events (fst (chat_cleanup env c s)))
         = delete_calls (events s)
           @ map (\<lambda>e. (c, message_id e))
               (take k (get_chat_messages c (deletion_limit env (step s)) (messages s)))"
proof -
  let ?recent = "get_chat_messages c (deletion_limit env (step s)) (messages s)"
  let ?s0 = "s\<lparr>events := events s @ [Initiated c], step := step s + 1\<rparr>"
  obtain s1 d u where dl: "delete_loop env c ?recent [] ?s0 = (s1, d, u)"
    by (cases "delete_loop env c ?recent [] ?s0") auto
  from delete_loop_events [OF dl] obtain k where
    "events s1 = events ?s0 @ map (\<lambda>e. DeleteCall c (message_id e)) (take k ?recent)"
    by blast
  then have "delete_calls (events (fst (chat_cleanup env c s)))
      = delete_calls (events s) @ map (\<lambda>e. (c, message_id e)) (take k ?recent)"
    by (simp add: chat_cleanup_events [OF dl] delete_calls_append delete_calls_map_DeleteCall)
  then show ?thesis ..
qed

lemma chat_cleanup_not_attempted:
  assumes pk: "primary_key_ok (messages s)"
    and r: "r \<in> set (messages s)"
    and not_eligible: "\<not> (chat_id r = c \<and> deletion_limit env (step s) < timestamp r)"
  shows "\<exists>new. delete_calls (events (fst (chat_cleanup env c s))) = delete_calls (events s) @ new
           \<and> (chat_id r, message_id r) \<notin> set new"
proof -
  let ?recent = "get_chat_messages c (deletion_limit env (step s)) (messages s)"
  from chat_cleanup_delete_calls [of env c s] obtain k where
    k: "delete_calls (events (fst (chat_cleanup env c s)))
         = delete_calls (events s) @ map (\<lambda>e. (c, message_id e)) (take k ?recent)"
    by blast
  have "(chat_id r, message_id r) \<notin> set (map (\<lambda>e. (c, message_id e)) (take k ?recent))"
  proof
    assume "(chat_id r, message_id r) \<in> set (map (\<lambda>e. (c, message_id e)) (take k ?recent))"
    then obtain e where e: "e \<in> set (take k ?recent)" "chat_id r = c" "message_id e = message_id r"
      by auto
    from e(1) have "e \<in> set ?recent"
      by (rule in_set_takeD)
    then have e': "e \<in> set (messages s)" "deletion_limit env (step s) < timestamp e"
      by (auto simp: set_get_chat_messages)
    from pk r e'(1) e(3) have "e = r"
      unfolding primary_key_ok_def by (meson distinct_map inj_onD)
    with e' e(2) not_eligible show False by simp
  qed
  with k show ?thesis by blast
qed

lemma cleanup_chats_keeps:
  "primary_key_ok (messages s) \<Longrightarrow> r \<in> set (messages s) \<Longrightarrow>
   \<forall>l\<in>set (chat_limits env (chat_id r) cs s). timestamp r = l \<Longrightarrow>
   \<forall>m\<in>set (pass_reports env cs s). msg_message_id m \<noteq> message_id r \<Longrightarrow>
     (r \<in> set (messages (cleanup_chats env cs s))
      \<and> (\<exists>new. delete_calls (events (cleanup_chats env cs s)) = delete_calls (events s) @ new
             \<and> (chat_id r, message_id r) \<notin> set new))
     \<or> (chat_id r \<in> set cs \<and> chat_id r \<notin> active_groups (cleanup_chats env cs s))"
proof (induction cs arbitrary: s)
  case Nil
  then show ?case by simp
next
  case (Cons c cs)
  let ?s1 = "fst (chat_cleanup env c s)"
  from Cons.prems(3) have ne: "\<not> (chat_id r = c \<and> deletion_limit env (step s) < timestamp r)"
    by auto
  from Cons.prems(4) have ids: "\<forall>m. sent_report env c s = Some m \<longrightarrow> msg_message_id m \<noteq> message_id r"
    by auto
  from Cons.prems(3) have limits: "\<forall>l\<in>set (chat_limits env (chat_id r) cs ?s1). timestamp r = l"
    by simp
  from Cons.prems(4) have reports: "\<forall>m\<in>set (pass_reports env cs ?s1). msg_message_id m \<noteq> message_id r"
    by simp
  from chat_cleanup_frame [OF Cons.prems(1), of env c]
  have pk1: "primary_key_ok (messages ?s1)" by simp
  from chat_cleanup_not_attempted [OF Cons.prems(1,2) ne] obtain new1 where
    new1: "delete_calls (events ?s1) = delete_calls (events s) @ new1"
    "(chat_id r, message_id r) \<notin> set new1"
    by blast
  from chat_cleanup_keeps [OF Cons.prems(1,2) ne ids]
  consider (kept) "r \<in> set (messages ?s1)" | (gone) "chat_id r = c" "c \<notin> active_groups ?s1"
    by blast
  then show ?case
  proof cases
    case kept
    from Cons.IH [OF pk1 kept limits reports]
    consider (still) new2 where "r \<in> set (messages (cleanup_chats env cs ?s1))"
        "delete_calls (events (cleanup_chats env cs ?s1)) = delete_calls (events ?s1) @ new2"
        "(chat_id r, message_id r) \<notin> set new2"
      | (later) "chat_id r \<in> set cs" "chat_id r \<notin> active_groups (cleanup_chats env cs ?s1)"
      by blast
    then show ?thesis
    proof cases
      case still
      from still(2) new1(1)
      have "delete_calls (events (cleanup_chats env cs ?s1)) = delete_calls (events s) @ (new1 @ new2)"
        by simp
      moreover from still(3) new1(2) have "(chat_id r, message_id r) \<notin> set (new1 @ new2)"
        by simp
      ultimately have "\<exists>new. delete_calls (events (cleanup_chats env cs ?s1)) = delete_calls (events s) @ new
             \<and> (chat_id r, message_id r) \<notin> set new"
        by blast
      with still(1) show ?thesis
        by (simp only: cleanup_chats_Cons) blast
    next
      case later
      then show ?thesis
        by (simp only: cleanup_chats_Cons) simp
    qed
  next
    case gone
    from cleanup_chats_frame [OF pk1, of env cs] gone(2)
    have "c \<notin> active_groups (cleanup_chats env cs ?s1)" by blast
    with gone(1) show ?thesis
      by (simp only: cleanup_chats_Cons) simp
  qed
qed

lemma delete_loop_length:
  "delete_loop env c es d s = (s', d', u) \<Longrightarrow> length d' \<le> length d + length es"
proof (induction es arbitrary: d s)
  case Nil
  then show ?case by simp
next
  case (Cons e es)
  let ?s1 = "s\<lparr>events := events s @ [DeleteCall c (message_id e)], step := step s + 1\<rparr>"
  consider (stop) "d' = d"
    | (skip) "delete_loop env c es d ?s1 = (s', d', u)"
    | (del) "delete_loop env c es (d @ [e]) (?s1\<lparr>messages := remove_message e (messages ?s1)\<rparr>)
               = (s', d', u)"
    using Cons.prems
    by (auto simp: Let_def split: sum.splits exn.splits if_splits)
  then show ?case
  proof cases
    case stop
    then show ?thesis by simp
  next
    case skip
    from Cons.IH [OF skip] show ?thesis by simp
  next
    case del
    from Cons.IH [OF del] show ?thesis by simp
  qed
qed

text \<open>
  The report path after \<^verbatim>\<open>Unauthorized\<close>, for every input: the chat is abandoned and
  \<^verbatim>\<open>AttributeError\<close> is raised.
\<close>

lemma chat_cleanup_unauthorized_report:
  assumes dl: "delete_loop env c (get_chat_messages c (deletion_limit env (step s)) (messages s)) []
             (s\<lparr>events := events s @ [Initiated c], step := step s + 1\<rparr>) = (s1, d, False)"
    and unauthorized: "send_message env (step s1) c
          (report_message (length d)
             (length (get_chat_messages c (deletion_limit env (step s)) (messages s)) - length d))
        = Inl Unauthorized"
  shows "snd (chat_cleanup env c s) = Some AttributeError
       \<and> messages (fst (chat_cleanup env c s)) = delete_chat_messages c (messages s1)
       \<and> active_groups (fst (chat_cleanup env c s)) = active_groups s1 - {c}"
  using unauthorized
  by (simp add: chat_cleanup_unfold [OF dl] send_status_message_def retain_message_def)

section \<open>The claims\<close>

text \<open>
  C1 (as amended). The ledger keys its records by \<^verbatim>\<open>message_id\<close> alone. Adding two messages
  with the same \<^verbatim>\<open>message_id\<close>, whatever their chat ids, leaves exactly one record with
  that \<^verbatim>\<open>message_id\<close>, the second message: the second addition overwrites the record in
  place (the table does not grow) and no record with another \<^verbatim>\<open>message_id\<close> changes. In
  particular, re-adding an existing (chat\_id, message\_id) pair overwrites and does not
  duplicate.
\<close>

theorem add_message_keyed_by_message_id:
  assumes "primary_key_ok rows" and "message_id m1 = message_id m2"
  shows "filter (\<lambda>r. message_id r = message_id m2) (add_message m2 (add_message m1 rows)) = [m2]
       \<and> length (add_message m2 (add_message m1 rows)) = length (add_message m1 rows)
       \<and> filter (\<lambda>r. message_id r \<noteq> message_id m2) (add_message m2 (add_message m1 rows))
           = filter (\<lambda>r. message_id r \<noteq> message_id m2) rows"
proof -
  have pk: "primary_key_ok (add_message m1 rows)"
    using assms(1) by (rule primary_key_ok_add_message)
  have "filter (\<lambda>r. message_id r = message_id m1) (add_message m1 rows) = [m1]"
    using assms(1) by (rule filter_same_add_message)
  then have "m1 \<in> set (filter (\<lambda>r. message_id r = message_id m1) (add_message m1 rows))"
    by simp
  then have "m1 \<in> set (add_message m1 rows)"
    by simp
  then have present: "list_ex (\<lambda>r. message_id r = message_id m2) (add_message m1 rows)"
    using assms(2) by (auto simp: list_ex_iff)
  have "length (add_message m2 (add_message m1 rows)) = length (add_message m1 rows)"
    by (simp add: add_message_present [OF present])
  moreover have "filter (\<lambda>r. message_id r \<noteq> message_id m2) (add_message m2 (add_message m1 rows))
      = filter (\<lambda>r. message_id r \<noteq> message_id m2) rows"
    using filter_other_add_message [of m1 rows] assms(2)
    by (simp add: filter_other_add_message)
  ultimately show ?thesis
    using filter_same_add_message [OF pk, of m2] by simp
qed

theorem add_message_keyed_by_message_id_witness:
  "primary_key_ok [\<lparr>message_id = 3, chat_id = 1, timestamp = 5\<rparr>]
   \<and> filter (\<lambda>r. message_id r = 7)
        (add_message \<lparr>message_id = 7, chat_id = 2, timestamp = 20\<rparr>
          (add_message \<lparr>message_id = 7, chat_id = 1, timestamp = 10\<rparr>
            [\<lparr>message_id = 3, chat_id = 1, timestamp = 5\<rparr>]))
       = [\<lparr>message_id = 7, chat_id = 2, timestamp = 20\<rparr>]"
  using add_message_keyed_by_message_id
    [of "[\<lparr>message_id = 3, chat_id = 1, timestamp = 5\<rparr>]"
        "\<lparr>message_id = 7, chat_id = 1, timestamp = 10\<rparr>"
        "\<lparr>message_id = 7, chat_id = 2, timestamp = 20\<rparr>"]
  by (simp add: primary_key_ok_def)

text \<open>
  C1 as stated fails: two messages with the same \<^verbatim>\<open>message_id\<close> 7 in the chats 1 and 2 do
  not end as two records. The second replaces the first, and chat 1 has lost its record.
\<close>

theorem same_message_id_two_chats_one_record:
  "add_message \<lparr>message_id = 7, chat_id = 2, timestamp = 20\<rparr>
     (add_message \<lparr>message_id = 7, chat_id = 1, timestamp = 10\<rparr> [])
   = [\<lparr>message_id = 7, chat_id = 2, timestamp = 20\<rparr>]"
  by (simp add: add_message_def)

text \<open>
  C8. An upsert followed by a second upsert with the same (chat\_id, message\_id) and
  another timestamp leaves exactly one record for that key, and it carries the timestamp
  of the second upsert.
\<close>

theorem upsert_twice_latest_timestamp:
  assumes "primary_key_ok rows"
  shows "filter (\<lambda>r. chat_id r = c \<and> message_id r = k)
           (add_message \<lparr>message_id = k, chat_id = c, timestamp = t2\<rparr>
              (add_message \<lparr>message_id = k, chat_id = c, timestamp = t1\<rparr> rows))
         = [\<lparr>message_id = k, chat_id = c, timestamp = t2\<rparr>]"
proof -
  let ?m1 = "\<lparr>message_id = k, chat_id = c, timestamp = t1\<rparr>"
  let ?m2 = "\<lparr>message_id = k, chat_id = c, timestamp = t2\<rparr>"
  let ?rows = "add_message ?m2 (add_message ?m1 rows)"
  have pk: "primary_key_ok (add_message ?m1 rows)"
    using assms by (rule primary_key_ok_add_message)
  have one: "filter (\<lambda>r. message_id r = k) ?rows = [?m2]"
    using filter_same_add_message [OF pk, of ?m2] by simp
  have "filter (\<lambda>r. chat_id r = c \<and> message_id r = k) ?rows
        = filter (\<lambda>r. chat_id r = c) (filter (\<lambda>r. message_id r = k) ?rows)"
    by (simp add: conj_commute)
  with one show ?thesis by simp
qed

theorem upsert_twice_latest_timestamp_witness:
  "primary_key_ok [\<lparr>message_id = 3, chat_id = 1, timestamp = 5\<rparr>]
   \<and> filter (\<lambda>r. chat_id r = 1 \<and> message_id r = 7)
        (add_message \<lparr>message_id = 7, chat_id = 1, timestamp = 20\<rparr>
          (add_message \<lparr>message_id = 7, chat_id = 1, timestamp = 10\<rparr>
            [\<lparr>message_id = 3, chat_id = 1, timestamp = 5\<rparr>]))
       = [\<lparr>message_id = 7, chat_id = 1, timestamp = 20\<rparr>]"
  using upsert_twice_latest_timestamp
    [of "[\<lparr>message_id = 3, chat_id = 1, timestamp = 5\<rparr>]" 1 7 20 10]
  by (simp add: primary_key_ok_def)

text \<open>
  C7. \<^verbatim>\<open>get_chat_messages\<close> returns exactly the tracked messages of the chat whose
  timestamp is strictly greater than the cutoff, each once, newest first; and
  \<^verbatim>\<open>_chat_cleanup\<close> attempts its deletions in that order: the deletion calls it makes are
  an initial part of that list, and all of it unless a deletion raises
  \<^verbatim>\<open>Unauthorized\<close>.
\<close>

theorem messages_since_newest_first:
  "mset (get_chat_messages c t rows) = mset (filter (\<lambda>r. chat_id r = c \<and> t < timestamp r) rows)
   \<and> sorted_wrt (\<lambda>a b. timestamp b \<le> timestamp a) (get_chat_messages c t rows)
   \<and> (\<exists>k. k \<le> length (get_chat_messages c (deletion_limit env (step s)) (messages s))
        \<and> delete_calls (events (fst (chat_cleanup env c s)))
            = delete_calls (events s)
              @ map (\<lambda>e. (c, message_id e))
                  (take k (get_chat_messages c (deletion_limit env (step s)) (messages s)))
        \<and> ((\<forall>n k. delete_message env n c k \<noteq> Inl Unauthorized)
             \<longrightarrow> k = length (get_chat_messages c (deletion_limit env (step s)) (messages s))))"
proof -
  let ?recent = "get_chat_messages c (deletion_limit env (step s)) (messages s)"
  let ?s0 = "s\<lparr>events := events s @ [Initiated c], step := step s + 1\<rparr>"
  obtain s1 d u where dl: "delete_loop env c ?recent [] ?s0 = (s1, d, u)"
    by (cases "delete_loop env c ?recent [] ?s0") auto
  from delete_loop_events [OF dl] obtain k where k: "k \<le> length ?recent"
    "events s1 = events ?s0 @ map (\<lambda>e. DeleteCall c (message_id e)) (take k ?recent)"
    "\<not> u \<longrightarrow> k = length ?recent" by blast
  have "delete_calls (events (fst (chat_cleanup env c s)))
      = delete_calls (events s) @ map (\<lambda>e. (c, message_id e)) (take k ?recent)"
    by (simp add: chat_cleanup_events [OF dl] k(2) delete_calls_append delete_calls_map_DeleteCall)
  moreover have "(\<forall>n k. delete_message env n c k \<noteq> Inl Unauthorized) \<longrightarrow> k = length ?recent"
    using delete_loop_no_unauthorized [OF _ dl] k(3) by blast
  ultimately have "\<exists>k. k \<le> length ?recent
        \<and> delete_calls (events (fst (chat_cleanup env c s)))
            = delete_calls (events s) @ map (\<lambda>e. (c, message_id e)) (take k ?recent)
        \<and> ((\<forall>n k. delete_message env n c k \<noteq> Inl Unauthorized) \<longrightarrow> k = length ?recent)"
    using k(1) by blast
  then show ?thesis
    using mset_get_chat_messages sorted_desc_get_chat_messages by blast
qed

theorem messages_since_newest_first_witness:
  "(\<forall>n k. delete_message obliging n 100 k \<noteq> Inl Unauthorized)
   \<and> get_chat_messages 100 (deletion_limit obliging 0)
        [\<lparr>message_id = 1, chat_id = 100, timestamp = 2000\<rparr>,
         \<lparr>message_id = 2, chat_id = 100, timestamp = 3000\<rparr>,
         \<lparr>message_id = 3, chat_id = 100, timestamp = 500\<rparr>,
         \<lparr>message_id = 4, chat_id = 300, timestamp = 3000\<rparr>]
       = [\<lparr>message_id = 2, chat_id = 100, timestamp = 3000\<rparr>,
          \<lparr>message_id = 1, chat_id = 100, timestamp = 2000\<rparr>]
   \<and> delete_calls (events (fst (chat_cleanup obliging 100
        (bot_with {100}
          [\<lparr>message_id = 1, chat_id = 100, timestamp = 2000\<rparr>,
           \<lparr>message_id = 2, chat_id = 100, timestamp = 3000\<rparr>,
           \<lparr>message_id = 3, chat_id = 100, timestamp = 500\<rparr>,
           \<lparr>message_id = 4, chat_id = 300, timestamp = 3000\<rparr>]))))
       = [(100, 2), (100, 1)]"
proof -
  let ?rows = "[\<lparr>message_id = 1, chat_id = 100, timestamp = 2000\<rparr>,
         \<lparr>message_id = 2, chat_id = 100, timestamp = 3000\<rparr>,
         \<lparr>message_id = 3, chat_id = 100, timestamp = 500\<rparr>,
         \<lparr>message_id = 4, chat_id = 300, timestamp = 3000\<rparr>]"
  have ok: "\<forall>n k. delete_message obliging n 100 k \<noteq> Inl Unauthorized"
    by (simp add: obliging_def)
  have recent: "get_chat_messages 100 (deletion_limit obliging 0) ?rows
       = [\<lparr>message_id = 2, chat_id = 100, timestamp = 3000\<rparr>,
          \<lparr>message_id = 1, chat_id = 100, timestamp = 2000\<rparr>]"
    by (simp add: get_chat_messages_def deletion_limit_def obliging_def)
  have "delete_calls (events (fst (chat_cleanup obliging 100 (bot_with {100} ?rows))))
       = [(100, 2), (100, 1)]"
    using messages_since_newest_first [of 100 0 "[]" obliging "bot_with {100} ?rows"] ok recent
    by (auto simp: bot_with_def)
  with ok recent show ?thesis by blast
qed

text \<open>
  C6. Abandoning a chat removes all of the chat's records from the ledger, leaves the
  records of the other chats, and removes the chat from the active set; abandoning it
  again changes nothing.
\<close>

theorem abandon_chat_removes_and_is_idempotent:
  "filter (\<lambda>r. chat_id r = c) (messages (abandon_chat c s)) = []
   \<and> filter (\<lambda>r. chat_id r \<noteq> c) (messages (abandon_chat c s)) = filter (\<lambda>r. chat_id r \<noteq> c) (messages s)
   \<and> c \<notin> active_groups (abandon_chat c s)
   \<and> abandon_chat c (abandon_chat c s) = abandon_chat c s"
  by (simp add: abandon_chat_def delete_chat_messages_def)

text \<open>
  C4 (as amended). The re-keying of a migrated chat is idempotent: applied twice it gives
  what it gives applied once. It has no check for the old id: whether or not the old id
  is in the active set, the active set afterwards is the old one without the old id and
  with the new id, every record of the old id carries the new id with its
  \<^verbatim>\<open>message_id\<close> and \<^verbatim>\<open>timestamp\<close> as before, every other record is as before, and
  nothing else of the state changes.
\<close>

theorem chat_id_migration_idempotent:
  "handle_chat_id_migration old_id new_id (handle_chat_id_migration old_id new_id s)
     = handle_chat_id_migration old_id new_id s
   \<and> active_groups (handle_chat_id_migration old_id new_id s)
       = insert new_id (active_groups s - {old_id})
   \<and> messages (handle_chat_id_migration old_id new_id s)
       = map (\<lambda>r. \<lparr>message_id = message_id r,
                    chat_id = (if chat_id r = old_id then new_id else chat_id r),
                    timestamp = timestamp r\<rparr>) (messages s)
   \<and> group_joiner_chats (handle_chat_id_migration old_id new_id s) = group_joiner_chats s
   \<and> events (handle_chat_id_migration old_id new_id s) = events s
   \<and> step (handle_chat_id_migration old_id new_id s) = step s"
proof -
  have "insert new_id (insert new_id (active_groups s - {old_id}) - {old_id})
        = insert new_id (active_groups s - {old_id})"
    by auto
  moreover have "update_chat_id old_id new_id rows
       = map (\<lambda>r. \<lparr>message_id = message_id r,
                    chat_id = (if chat_id r = old_id then new_id else chat_id r),
                    timestamp = timestamp r\<rparr>) rows" for rows
    by (induction rows) (auto simp: update_chat_id_def)
  ultimately show ?thesis
    by (simp add: handle_chat_id_migration_def update_chat_id_twice)
qed

text \<open>
  C4 as stated fails: with chat 1 absent from the active set, the re-keying of 1 to 2 is
  not skipped. It adds 2 to the active set and re-keys the record of chat 1.
\<close>

theorem migration_of_absent_chat_not_skipped:
  "1 \<notin> active_groups \<lparr>active_groups = {}, group_joiner_chats = Map.empty,
        messages = [\<lparr>message_id = 5, chat_id = 1, timestamp = 10\<rparr>], events = [], step = 0\<rparr>
   \<and> active_groups (handle_chat_id_migration 1 2
        \<lparr>active_groups = {}, group_joiner_chats = Map.empty,
         messages = [\<lparr>message_id = 5, chat_id = 1, timestamp = 10\<rparr>], events = [], step = 0\<rparr>) = {2}
   \<and> messages (handle_chat_id_migration 1 2
        \<lparr>active_groups = {}, group_joiner_chats = Map.empty,
         messages = [\<lparr>message_id = 5, chat_id = 1, timestamp = 10\<rparr>], events = [], step = 0\<rparr>)
       = [\<lparr>message_id = 5, chat_id = 2, timestamp = 10\<rparr>]"
  by (simp add: handle_chat_id_migration_def update_chat_id_def)

text \<open>
  C9. Where a group chat has no eligible message, \<^verbatim>\<open>_chat_cleanup\<close> sends exactly the report
  "Removed 0 recent messages. Failed to remove: 0." to the chat, and the message the
  transport returns for it is inserted into the ledger as a tracked message of the chat.
\<close>

theorem zero_eligible_report_is_tracked:
  assumes "get_chat_messages c (deletion_limit env (step s)) (messages s) = []"
    and "send_message env (step s + 1) c ''Removed 0 recent messages. Failed to remove: 0.'' = Inr m"
    and "msg_chat_type m = GROUP \<or> msg_chat_type m = SUPERGROUP"
    and "msg_chat_id m = c"
  shows "events (fst (chat_cleanup env c s))
           = events s @ [Initiated c, SendCall c ''Removed 0 recent messages. Failed to remove: 0.'']
       \<and> snd (chat_cleanup env c s) = None
       \<and> messages (fst (chat_cleanup env c s))
           = add_message \<lparr>message_id = msg_message_id m, chat_id = c, timestamp = msg_date m\<rparr> (messages s)
       \<and> \<lparr>message_id = msg_message_id m, chat_id = c, timestamp = msg_date m\<rparr>
           \<in> set (messages (fst (chat_cleanup env c s)))"
proof -
  let ?s0 = "s\<lparr>events := events s @ [Initiated c], step := step s + 1\<rparr>"
  have dl: "delete_loop env c (get_chat_messages c (deletion_limit env (step s)) (messages s)) [] ?s0
       = (?s0, [], False)"
    using assms(1) by simp
  have sent: "send_status_message env c ''Removed 0 recent messages. Failed to remove: 0.'' ?s0
       = (?s0\<lparr>events := events ?s0 @ [SendCall c ''Removed 0 recent messages. Failed to remove: 0.''],
               step := step ?s0 + 1\<rparr>, Inr (Some m))"
    using assms(2) by (simp add: send_status_message_def)
  have "chat_cleanup env c s =
      (?s0\<lparr>events := events ?s0 @ [SendCall c ''Removed 0 recent messages. Failed to remove: 0.''],
            step := step ?s0 + 1,
            messages := add_message \<lparr>message_id = msg_message_id m, chat_id = c, timestamp = msg_date m\<rparr>
                          (messages s)\<rparr>, None)"
    using assms(3,4) sent
    by (simp add: chat_cleanup_unfold [OF dl] assms(1) report_message_0_0 retain_message_def)
  then show ?thesis
    by (simp add: mem_add_message)
qed

theorem zero_eligible_report_is_tracked_witness:
  "get_chat_messages 200 (deletion_limit obliging 0)
      [\<lparr>message_id = 1, chat_id = 200, timestamp = 500\<rparr>] = []
   \<and> send_message obliging 1 200 ''Removed 0 recent messages. Failed to remove: 0.''
       = Inr \<lparr>msg_message_id = 901, msg_chat_id = 200, msg_chat_type = SUPERGROUP,
              msg_date = two_days + 1001\<rparr>
   \<and> messages (fst (chat_cleanup obliging 200
        (bot_with {200} [\<lparr>message_id = 1, chat_id = 200, timestamp = 500\<rparr>])))
       = [\<lparr>message_id = 1, chat_id = 200, timestamp = 500\<rparr>,
          \<lparr>message_id = 901, chat_id = 200, timestamp = two_days + 1001\<rparr>]"
proof -
  have h1: "get_chat_messages 200 (deletion_limit obliging
              (step (bot_with {200} [\<lparr>message_id = 1, chat_id = 200, timestamp = 500\<rparr>])))
            (messages (bot_with {200} [\<lparr>message_id = 1, chat_id = 200, timestamp = 500\<rparr>])) = []"
    by (simp add: get_chat_messages_def deletion_limit_def obliging_def bot_with_def)
  have h2: "send_message obliging
              (step (bot_with {200} [\<lparr>message_id = 1, chat_id = 200, timestamp = 500\<rparr>]) + 1) 200
              ''Removed 0 recent messages. Failed to remove: 0.''
       = Inr \<lparr>msg_message_id = 901, msg_chat_id = 200, msg_chat_type = SUPERGROUP,
              msg_date = two_days + 1001\<rparr>"
    by (simp add: obliging_def bot_with_def)
  show ?thesis
    using zero_eligible_report_is_tracked [OF h1 h2] h1 h2
    by (simp add: bot_with_def add_message_def)
qed

text \<open>
  C3, on the code: the report of chat 200 is answered with \<^verbatim>\<open>Unauthorized\<close>. The chat is
  abandoned and nothing is inserted into the ledger, but \<^verbatim>\<open>_chat_cleanup\<close> does not return:
  \<^verbatim>\<open>_send_status_message\<close> has returned \<^verbatim>\<open>None\<close>, and \<^verbatim>\<open>_retain_message(None)\<close> raises
  \<^verbatim>\<open>AttributeError\<close> to the caller.
\<close>

theorem unauthorized_report_raises_attribute_error:
  "chat_cleanup kicked_before_report 200
     (bot_with {200, 300} [\<lparr>message_id = 1, chat_id = 200, timestamp = 500\<rparr>,
                           \<lparr>message_id = 2, chat_id = 300, timestamp = 3000\<rparr>])
   = (\<lparr>active_groups = {300}, group_joiner_chats = Map.empty,
       messages = [\<lparr>message_id = 2, chat_id = 300, timestamp = 3000\<rparr>],
       events = [Initiated 200, SendCall 200 ''Removed 0 recent messages. Failed to remove: 0.''],
       step = 2\<rparr>, Some AttributeError)"
  by (simp add: chat_cleanup_def kicked_before_report_def obliging_def bot_with_def Let_def
      get_chat_messages_def deletion_limit_def send_status_message_def retain_message_def
      report_message_0_0 abandon_chat_def delete_chat_messages_def two_days_def insert_Diff_if)

text \<open>
  C2 (as amended). In a cleanup of a chat with five eligible messages in which the first two
  deletion attempts do not raise \<^verbatim>\<open>Unauthorized\<close> and the third does, the attempts for
  the fourth and the fifth message are not made, no report is sent and no exception
  reaches the caller; the chat is abandoned, which removes it from the active set and
  removes every record of the chat from the ledger, the third, fourth and fifth as well
  as the first two, and leaves the records of the other chats.
\<close>

theorem unauthorized_at_third_of_five:
  assumes pk: "primary_key_ok (messages s)"
    and recent: "get_chat_messages c (deletion_limit env (step s)) (messages s) = [m1, m2, m3, m4, m5]"
    and a1: "delete_message env (step s + 1) c (message_id m1) \<noteq> Inl Unauthorized"
    and a2: "delete_message env (step s + 2) c (message_id m2) \<noteq> Inl Unauthorized"
    and a3: "delete_message env (step s + 3) c (message_id m3) = Inl Unauthorized"
  shows "snd (chat_cleanup env c s) = None
       \<and> events (fst (chat_cleanup env c s))
           = events s @ [Initiated c, DeleteCall c (message_id m1), DeleteCall c (message_id m2),
                         DeleteCall c (message_id m3)]
       \<and> active_groups (fst (chat_cleanup env c s)) = active_groups s - {c}
       \<and> messages (fst (chat_cleanup env c s)) = filter (\<lambda>r. chat_id r \<noteq> c) (messages s)"
proof -
  let ?s0 = "s\<lparr>events := events s @ [Initiated c], step := step s + 1\<rparr>"
  from a1 have "delete_message env (step ?s0) c (message_id m1) \<noteq> Inl Unauthorized"
    by simp
  from delete_loop_not_unauthorized [OF this, of "[m2, m3, m4, m5]" "[]"]
  obtain s1 d1 where s1: "delete_loop env c [m1, m2, m3, m4, m5] [] ?s0 = delete_loop env c [m2, m3, m4, m5] d1 s1"
    "events s1 = events ?s0 @ [DeleteCall c (message_id m1)]" "step s1 = step ?s0 + 1"
    by blast
  from a2 s1(3) have "delete_message env (step s1) c (message_id m2) \<noteq> Inl Unauthorized"
    by simp
  from delete_loop_not_unauthorized [OF this, of "[m3, m4, m5]" d1]
  obtain s2 d2 where s2: "delete_loop env c [m2, m3, m4, m5] d1 s1 = delete_loop env c [m3, m4, m5] d2 s2"
    "events s2 = events s1 @ [DeleteCall c (message_id m2)]" "step s2 = step s1 + 1"
    by blast
  let ?s3 = "s2\<lparr>events := events s2 @ [DeleteCall c (message_id m3)], step := step s2 + 1\<rparr>"
  have "step s2 = step s + 3"
    using s1(3) s2(3) by simp
  with a3 have "delete_message env (step s2) c (message_id m3) = Inl Unauthorized"
    by (simp only:)
  from delete_loop_unauthorized [OF this, of "[m4, m5]" d2]
  have "delete_loop env c [m3, m4, m5] d2 s2 = (?s3, d2, True)" .
  with s1(1) s2(1) recent
  have dl: "delete_loop env c (get_chat_messages c (deletion_limit env (step s)) (messages s)) [] ?s0
      = (?s3, d2, True)"
    by simp
  have cc: "chat_cleanup env c s = (abandon_chat c ?s3, None)"
    by (simp add: chat_cleanup_unfold [OF dl])
  from delete_loop_frame [OF dl] obtain ds where ds:
    "active_groups ?s3 = active_groups ?s0"
    "set ds \<subseteq> set (get_chat_messages c (deletion_limit env (step s)) (messages s))"
    "messages ?s3 = filter (\<lambda>r. message_id r \<notin> message_id ` set ds) (messages ?s0)"
    by blast
  from ds(2) have "set ds \<subseteq> {r \<in> set (messages s). chat_id r = c}"
    by (auto simp: set_get_chat_messages)
  from delete_chat_messages_after_loop [OF pk this] ds(3)
  have "delete_chat_messages c (messages ?s3) = delete_chat_messages c (messages s)"
    by simp
  then have "messages (abandon_chat c ?s3) = filter (\<lambda>r. chat_id r \<noteq> c) (messages s)"
    by (simp add: delete_chat_messages_def)
  moreover from ds(1) have "active_groups (abandon_chat c ?s3) = active_groups s - {c}"
    by simp
  moreover have "events (abandon_chat c ?s3)
           = events s @ [Initiated c, DeleteCall c (message_id m1), DeleteCall c (message_id m2),
                         DeleteCall c (message_id m3)]"
    by (simp add: s1(2) s2(2))
  ultimately show ?thesis
    by (simp only: cc fst_conv snd_conv simp_thms)
qed

theorem unauthorized_at_third_of_five_witness:
  "primary_key_ok five_messages
   \<and> get_chat_messages 100 (deletion_limit kicked_at_third_attempt 0) five_messages =
     [\<lparr>message_id = 1, chat_id = 100, timestamp = 5000\<rparr>,
      \<lparr>message_id = 2, chat_id = 100, timestamp = 4000\<rparr>,
      \<lparr>message_id = 3, chat_id = 100, timestamp = 3000\<rparr>,
      \<lparr>message_id = 4, chat_id = 100, timestamp = 2000\<rparr>,
      \<lparr>message_id = 5, chat_id = 100, timestamp = 1500\<rparr>]
   \<and> delete_message kicked_at_third_attempt 1 100 1 \<noteq> Inl Unauthorized
   \<and> delete_message kicked_at_third_attempt 2 100 2 \<noteq> Inl Unauthorized
   \<and> delete_message kicked_at_third_attempt 3 100 3 = Inl Unauthorized
   \<and> events (fst (chat_cleanup kicked_at_third_attempt 100 (bot_with {100, 300} five_messages)))
       = [Initiated 100, DeleteCall 100 1, DeleteCall 100 2, DeleteCall 100 3]
   \<and> active_groups (fst (chat_cleanup kicked_at_third_attempt 100 (bot_with {100, 300} five_messages)))
       = {300}
   \<and> messages (fst (chat_cleanup kicked_at_third_attempt 100 (bot_with {100, 300} five_messages)))
       = []"
proof -
  have pk: "primary_key_ok (messages (bot_with {100, 300} five_messages))"
    by (simp add: primary_key_ok_def bot_with_def five_messages_def)
  have recent: "get_chat_messages 100
       (deletion_limit kicked_at_third_attempt (step (bot_with {100, 300} five_messages)))
       (messages (bot_with {100, 300} five_messages)) =
     [\<lparr>message_id = 1, chat_id = 100, timestamp = 5000\<rparr>,
      \<lparr>message_id = 2, chat_id = 100, timestamp = 4000\<rparr>,
      \<lparr>message_id = 3, chat_id = 100, timestamp = 3000\<rparr>,
      \<lparr>message_id = 4, chat_id = 100, timestamp = 2000\<rparr>,
      \<lparr>message_id = 5, chat_id = 100, timestamp = 1500\<rparr>]"
    using five_messages_recent by (simp add: bot_with_def)
  have a1: "delete_message kicked_at_third_attempt (step (bot_with {100, 300} five_messages) + 1) 100
       (message_id \<lparr>message_id = 1, chat_id = 100, timestamp = 5000\<rparr>) \<noteq> Inl Unauthorized"
    by (simp add: kicked_at_third_attempt_def bot_with_def)
  have a2: "delete_message kicked_at_third_attempt (step (bot_with {100, 300} five_messages) + 2) 100
       (message_id \<lparr>message_id = 2, chat_id = 100, timestamp = 4000\<rparr>) \<noteq> Inl Unauthorized"
    by (simp add: kicked_at_third_attempt_def bot_with_def)
  have a3: "delete_message kicked_at_third_attempt (step (bot_with {100, 300} five_messages) + 3) 100
       (message_id \<lparr>message_id = 3, chat_id = 100, timestamp = 3000\<rparr>) = Inl Unauthorized"
    by (simp add: kicked_at_third_attempt_def bot_with_def)
  have "events (fst (chat_cleanup kicked_at_third_attempt 100 (bot_with {100, 300} five_messages)))
       = [Initiated 100, DeleteCall 100 1, DeleteCall 100 2, DeleteCall 100 3]
   \<and> active_groups (fst (chat_cleanup kicked_at_third_attempt 100 (bot_with {100, 300} five_messages)))
       = {300}
   \<and> messages (fst (chat_cleanup kicked_at_third_attempt 100 (bot_with {100, 300} five_messages)))
       = []"
    using unauthorized_at_third_of_five [OF pk recent a1 a2 a3]
    by (simp add: bot_with_def five_messages_def insert_Diff_if)
  moreover have "primary_key_ok five_messages"
    using pk by (simp add: bot_with_def)
  moreover have "delete_message kicked_at_third_attempt 1 100 1 \<noteq> Inl Unauthorized"
    "delete_message kicked_at_third_attempt 2 100 2 \<noteq> Inl Unauthorized"
    "delete_message kicked_at_third_attempt 3 100 3 = Inl Unauthorized"
    by (simp_all add: kicked_at_third_attempt_def)
  ultimately show ?thesis
    using five_messages_recent by simp
qed

text \<open>
  C2 as stated fails: the fourth and the fifth message are not left in the ledger. The
  abandonment deletes every record of the chat.
\<close>

theorem fourth_and_fifth_not_left_in_ledger:
  "get_chat_messages 100 (deletion_limit kicked_at_third_attempt 0) five_messages =
     [\<lparr>message_id = 1, chat_id = 100, timestamp = 5000\<rparr>,
      \<lparr>message_id = 2, chat_id = 100, timestamp = 4000\<rparr>,
      \<lparr>message_id = 3, chat_id = 100, timestamp = 3000\<rparr>,
      \<lparr>message_id = 4, chat_id = 100, timestamp = 2000\<rparr>,
      \<lparr>message_id = 5, chat_id = 100, timestamp = 1500\<rparr>]
   \<and> delete_message kicked_at_third_attempt 3 100 3 = Inl Unauthorized
   \<and> \<lparr>message_id = 4, chat_id = 100, timestamp = 2000\<rparr> \<in> set five_messages
   \<and> \<lparr>message_id = 5, chat_id = 100, timestamp = 1500\<rparr> \<in> set five_messages
   \<and> \<lparr>message_id = 4, chat_id = 100, timestamp = 2000\<rparr>
        \<notin> set (messages (fst (chat_cleanup kicked_at_third_attempt 100 (bot_with {100} five_messages))))
   \<and> \<lparr>message_id = 5, chat_id = 100, timestamp = 1500\<rparr>
        \<notin> set (messages (fst (chat_cleanup kicked_at_third_attempt 100 (bot_with {100} five_messages))))"
proof -
  have "messages (fst (chat_cleanup kicked_at_third_attempt 100 (bot_with {100} five_messages))) = []"
    by (simp add: chat_cleanup_def kicked_at_third_attempt_def obliging_def bot_with_def Let_def
      get_chat_messages_def deletion_limit_def five_messages_def remove_message_def
      abandon_chat_def delete_chat_messages_def two_days_def)
  moreover have "delete_message kicked_at_third_attempt 3 100 3 = Inl Unauthorized"
    by (simp add: kicked_at_third_attempt_def)
  ultimately show ?thesis
    using five_messages_recent by (simp add: five_messages_def)
qed

text \<open>
  C5. In a global cleanup in which the cleanup of one chat of the snapshot raises an
  exception, the cleanup of every chat of the snapshot is still started, each once and
  in the order of the snapshot; the chats after the failing one are cleaned from the
  state the failing cleanup left; and the final prune runs: the ledger is then what
  \<^verbatim>\<open>remove_outdated_messages\<close> leaves of it, with no record older than the deletion limit.
\<close>

theorem total_cleanup_survives_exception:
  assumes "snd (chat_cleanup env c (cleanup_chats env before s)) = Some e"
  shows "initiated_chats (events (perform_total_cleanup env (before @ c # rest) s))
           = initiated_chats (events s) @ before @ c # rest
       \<and> cleanup_chats env (before @ c # rest) s
           = cleanup_chats env rest (fst (chat_cleanup env c (cleanup_chats env before s)))
       \<and> messages (perform_total_cleanup env (before @ c # rest) s)
           = remove_outdated_messages
               (deletion_limit env (step (cleanup_chats env (before @ c # rest) s)))
               (messages (cleanup_chats env (before @ c # rest) s))
       \<and> filter (\<lambda>r. timestamp r < deletion_limit env (step (cleanup_chats env (before @ c # rest) s)))
            (messages (perform_total_cleanup env (before @ c # rest) s)) = []"
proof -
  have "cleanup_chats env (before @ c # rest) s
           = cleanup_chats env rest (fst (chat_cleanup env c (cleanup_chats env before s)))"
    by (simp only: cleanup_chats_append cleanup_chats_Cons)
  moreover have "initiated_chats (events (perform_total_cleanup env (before @ c # rest) s))
           = initiated_chats (events s) @ before @ c # rest"
    by (simp only: fields_perform_total_cleanup initiated_chats_cleanup_chats)
  moreover have "filter (\<lambda>r. timestamp r < deletion_limit env (step (cleanup_chats env (before @ c # rest) s)))
            (messages (perform_total_cleanup env (before @ c # rest) s)) = []"
    by (simp add: fields_perform_total_cleanup remove_outdated_messages_def)
  ultimately show ?thesis
    by (simp only: fields_perform_total_cleanup simp_thms)
qed

theorem total_cleanup_survives_exception_witness:
  "snapshot_of [1, 2, 3] three_chats
   \<and> snd (chat_cleanup report_fails_in_chat_two 2
          (cleanup_chats report_fails_in_chat_two [1] three_chats)) = Some OtherError
   \<and> initiated_chats (events (perform_total_cleanup report_fails_in_chat_two [1, 2, 3] three_chats))
       = [1, 2, 3]
   \<and> events (perform_total_cleanup report_fails_in_chat_two [1, 2, 3] three_chats)
       = [Initiated 1, DeleteCall 1 11,
          SendCall 1 ''Removed 1 recent messages. Failed to remove: 0.'',
          Initiated 2, DeleteCall 2 12,
          SendCall 2 ''Removed 1 recent messages. Failed to remove: 0.'',
          Initiated 3, DeleteCall 3 13,
          SendCall 3 ''Removed 1 recent messages. Failed to remove: 0.'']
   \<and> messages (perform_total_cleanup report_fails_in_chat_two [1, 2, 3] three_chats)
       = [\<lparr>message_id = 902, chat_id = 1, timestamp = 172800001002\<rparr>,
          \<lparr>message_id = 908, chat_id = 3, timestamp = 172800001008\<rparr>]"
proof -
  have raised: "snd (chat_cleanup report_fails_in_chat_two 2
          (cleanup_chats report_fails_in_chat_two [1] three_chats)) = Some OtherError"
    by code_simp
  have "initiated_chats (events (perform_total_cleanup report_fails_in_chat_two [1, 2, 3] three_chats))
       = [1, 2, 3]"
    using total_cleanup_survives_exception [OF raised, of "[3]"]
    by (simp add: three_chats_def bot_with_def)
  moreover have "events (perform_total_cleanup report_fails_in_chat_two [1, 2, 3] three_chats)
       = [Initiated 1, DeleteCall 1 11,
          SendCall 1 ''Removed 1 recent messages. Failed to remove: 0.'',
          Initiated 2, DeleteCall 2 12,
          SendCall 2 ''Removed 1 recent messages. Failed to remove: 0.'',
          Initiated 3, DeleteCall 3 13,
          SendCall 3 ''Removed 1 recent messages. Failed to remove: 0.'']"
    by code_simp
  moreover have "messages (perform_total_cleanup report_fails_in_chat_two [1, 2, 3] three_chats)
       = [\<lparr>message_id = 902, chat_id = 1, timestamp = 172800001002\<rparr>,
          \<lparr>message_id = 908, chat_id = 3, timestamp = 172800001008\<rparr>]"
    by code_simp
  moreover have "snapshot_of [1, 2, 3] three_chats"
    by (auto simp: snapshot_of_def three_chats_def bot_with_def)
  ultimately show ?thesis
    using raised by simp
qed

text \<open>
  C10 (as amended). A tracked message whose timestamp equals a cutoff exactly is not selected
  by \<^verbatim>\<open>get_chat_messages\<close> with that cutoff and not removed by
  \<^verbatim>\<open>remove_outdated_messages\<close> with that cutoff. The cutoff is read from the clock anew for
  every chat and for the prune. In a global cleanup, take a record whose timestamp equals
  the cutoff of every cleanup of its chat, whose chat is not abandoned during the pass (it
  is still active afterwards, or was not in the snapshot), and whose \<^verbatim>\<open>message_id\<close> no
  report returned by the transport during the pass carries. No deletion of it is
  attempted, and it is in the ledger, unchanged, after the loop over the chats. It is in
  the ledger after the final prune exactly when its timestamp is not less than the cutoff
  the prune reads, that is, when the clock has not advanced since the cleanup of its chat.
\<close>

theorem record_at_cutoff_through_total_cleanup:
  assumes pk: "primary_key_ok (messages s)"
    and r: "r \<in> set (messages s)"
    and at_cutoff: "\<forall>l\<in>set (chat_limits env (chat_id r) order s). timestamp r = l"
    and ids: "\<forall>m\<in>set (pass_reports env order s). msg_message_id m \<noteq> message_id r"
    and not_abandoned:
      "chat_id r \<in> active_groups (perform_total_cleanup env order s) \<or> chat_id r \<notin> set order"
  shows "r \<notin> set (get_chat_messages c (timestamp r) rows)
       \<and> r \<in> set (remove_outdated_messages (timestamp r) (messages s))
       \<and> (\<exists>new. delete_calls (events (perform_total_cleanup env order s))
                    = delete_calls (events s) @ new
                  \<and> (chat_id r, message_id r) \<notin> set new)
       \<and> r \<in> set (messages (cleanup_chats env order s))
       \<and> (r \<in> set (messages (perform_total_cleanup env order s))
            \<longleftrightarrow> \<not> timestamp r < deletion_limit env (step (cleanup_chats env order s)))"
proof -
  from cleanup_chats_keeps [OF pk r at_cutoff ids] not_abandoned
  have kept: "r \<in> set (messages (cleanup_chats env order s))"
    and calls: "\<exists>new. delete_calls (events (cleanup_chats env order s)) = delete_calls (events s) @ new
             \<and> (chat_id r, message_id r) \<notin> set new"
    by (auto simp: fields_perform_total_cleanup)
  from kept have "r \<in> set (messages (perform_total_cleanup env order s))
            \<longleftrightarrow> \<not> timestamp r < deletion_limit env (step (cleanup_chats env order s))"
    by (simp add: fields_perform_total_cleanup remove_outdated_messages_def)
  moreover have "r \<notin> set (get_chat_messages c (timestamp r) rows)"
    by (simp add: set_get_chat_messages)
  moreover from r have "r \<in> set (remove_outdated_messages (timestamp r) (messages s))"
    by (simp add: remove_outdated_messages_def)
  ultimately show ?thesis
    using kept calls by (simp only: fields_perform_total_cleanup simp_thms)
qed

theorem record_at_cutoff_through_total_cleanup_witness:
  "snapshot_of [1, 2] at_the_limit
   \<and> primary_key_ok (messages at_the_limit)
   \<and> \<lparr>message_id = 5, chat_id = 1, timestamp = 1000\<rparr> \<in> set (messages at_the_limit)
   \<and> chat_limits obliging 1 [1, 2] at_the_limit = [1000]
   \<and> map msg_message_id (pass_reports obliging [1, 2] at_the_limit) = [902, 904]
   \<and> 1 \<in> active_groups (perform_total_cleanup obliging [1, 2] at_the_limit)
   \<and> \<lparr>message_id = 5, chat_id = 1, timestamp = 1000\<rparr>
        \<in> set (messages (cleanup_chats obliging [1, 2] at_the_limit))
   \<and> deletion_limit obliging (step (cleanup_chats obliging [1, 2] at_the_limit)) = 1005
   \<and> \<lparr>message_id = 5, chat_id = 1, timestamp = 1000\<rparr>
        \<notin> set (messages (perform_total_cleanup obliging [1, 2] at_the_limit))
   \<and> chat_limits frozen_clock 1 [1, 2] at_the_limit = [1000]
   \<and> map msg_message_id (pass_reports frozen_clock [1, 2] at_the_limit) = [902, 904]
   \<and> 1 \<in> active_groups (perform_total_cleanup frozen_clock [1, 2] at_the_limit)
   \<and> deletion_limit frozen_clock (step (cleanup_chats frozen_clock [1, 2] at_the_limit)) = 1000
   \<and> \<lparr>message_id = 5, chat_id = 1, timestamp = 1000\<rparr>
        \<in> set (messages (perform_total_cleanup frozen_clock [1, 2] at_the_limit))"
proof -
  let ?r = "\<lparr>message_id = 5, chat_id = 1, timestamp = 1000\<rparr>"
  have snap: "snapshot_of [1, 2] at_the_limit"
    by (auto simp: snapshot_of_def at_the_limit_def bot_with_def)
  have pk: "primary_key_ok (messages at_the_limit)"
    by (simp add: at_the_limit_def bot_with_def primary_key_ok_def)
  have r: "?r \<in> set (messages at_the_limit)"
    by (simp add: at_the_limit_def bot_with_def)
  have limits: "chat_limits obliging 1 [1, 2] at_the_limit = [1000]"
    by code_simp
  have reports: "map msg_message_id (pass_reports obliging [1, 2] at_the_limit) = [902, 904]"
    by code_simp
  have active: "active_groups (perform_total_cleanup obliging [1, 2] at_the_limit) = {1, 2}"
    by code_simp
  have prune: "deletion_limit obliging (step (cleanup_chats obliging [1, 2] at_the_limit)) = 1005"
    by code_simp
  have h3: "\<forall>l\<in>set (chat_limits obliging (chat_id ?r) [1, 2] at_the_limit). timestamp ?r = l"
    using limits by simp
  have h4: "\<forall>m\<in>set (pass_reports obliging [1, 2] at_the_limit).
                   msg_message_id m \<noteq> message_id ?r"
  proof
    fix m assume "m \<in> set (pass_reports obliging [1, 2] at_the_limit)"
    then have "msg_message_id m \<in> set (map msg_message_id (pass_reports obliging [1, 2] at_the_limit))"
      unfolding set_map by (rule imageI)
    then have "msg_message_id m \<in> set [902, 904]"
      by (simp only: reports)
    then show "msg_message_id m \<noteq> message_id ?r"
      by auto
  qed
  have h5: "chat_id ?r \<in> active_groups (perform_total_cleanup obliging [1, 2] at_the_limit)
      \<or> chat_id ?r \<notin> set [1, 2]"
    using active by simp
  have limits': "chat_limits frozen_clock 1 [1, 2] at_the_limit = [1000]"
    by code_simp
  have reports': "map msg_message_id (pass_reports frozen_clock [1, 2] at_the_limit) = [902, 904]"
    by code_simp
  have active': "active_groups (perform_total_cleanup frozen_clock [1, 2] at_the_limit) = {1, 2}"
    by code_simp
  have prune': "deletion_limit frozen_clock (step (cleanup_chats frozen_clock [1, 2] at_the_limit)) = 1000"
    by code_simp
  have h3': "\<forall>l\<in>set (chat_limits frozen_clock (chat_id ?r) [1, 2] at_the_limit). timestamp ?r = l"
    using limits' by simp
  have h4': "\<forall>m\<in>set (pass_reports frozen_clock [1, 2] at_the_limit).
                   msg_message_id m \<noteq> message_id ?r"
  proof
    fix m assume "m \<in> set (pass_reports frozen_clock [1, 2] at_the_limit)"
    then have "msg_message_id m \<in> set (map msg_message_id (pass_reports frozen_clock [1, 2] at_the_limit))"
      unfolding set_map by (rule imageI)
    then have "msg_message_id m \<in> set [902, 904]"
      by (simp only: reports')
    then show "msg_message_id m \<noteq> message_id ?r"
      by auto
  qed
  have h5': "chat_id ?r \<in> active_groups (perform_total_cleanup frozen_clock [1, 2] at_the_limit)
      \<or> chat_id ?r \<notin> set [1, 2]"
    using active' by simp
  have advancing: "?r \<in> set (messages (cleanup_chats obliging [1, 2] at_the_limit))
      \<and> ?r \<notin> set (messages (perform_total_cleanup obliging [1, 2] at_the_limit))"
    using record_at_cutoff_through_total_cleanup [OF pk r h3 h4 h5] prune by simp
  have frozen: "?r \<in> set (messages (perform_total_cleanup frozen_clock [1, 2] at_the_limit))"
    using record_at_cutoff_through_total_cleanup [OF pk r h3' h4' h5'] prune' by simp
  from snap pk r limits reports active prune advancing limits' reports' active' prune' frozen
  show ?thesis by simp
qed

text \<open>
  C10 as stated fails. The clock of the source is read anew for every deletion limit and
  advances between the readings. The record 5 of chat 1 has the timestamp 1000, the
  cutoff of the cleanup of its chat: it is not attempted and chat 1 is not abandoned, but
  the prune reads the cutoff 1002 and removes it. The record 6 has the timestamp 1003,
  the cutoff the prune of its pass reads: the cleanup of its chat, with the earlier
  cutoff 1000, selects and deletes it.
\<close>

theorem record_at_cutoff_lost_when_clock_advances:
  "snapshot_of [1] (bot_with {1} [\<lparr>message_id = 5, chat_id = 1, timestamp = 1000\<rparr>])
   \<and> chat_limits obliging 1 [1] (bot_with {1} [\<lparr>message_id = 5, chat_id = 1, timestamp = 1000\<rparr>])
       = [1000]
   \<and> delete_calls (events (perform_total_cleanup obliging [1]
        (bot_with {1} [\<lparr>message_id = 5, chat_id = 1, timestamp = 1000\<rparr>]))) = []
   \<and> active_groups (perform_total_cleanup obliging [1]
        (bot_with {1} [\<lparr>message_id = 5, chat_id = 1, timestamp = 1000\<rparr>])) = {1}
   \<and> deletion_limit obliging (step (cleanup_chats obliging [1]
        (bot_with {1} [\<lparr>message_id = 5, chat_id = 1, timestamp = 1000\<rparr>]))) = 1002
   \<and> messages (perform_total_cleanup obliging [1]
        (bot_with {1} [\<lparr>message_id = 5, chat_id = 1, timestamp = 1000\<rparr>]))
       = [\<lparr>message_id = 901, chat_id = 1, timestamp = 172800001001\<rparr>]
   \<and> deletion_limit obliging (step (cleanup_chats obliging [1]
        (bot_with {1} [\<lparr>message_id = 6, chat_id = 1, timestamp = 1003\<rparr>]))) = 1003
   \<and> delete_calls (events (perform_total_cleanup obliging [1]
        (bot_with {1} [\<lparr>message_id = 6, chat_id = 1, timestamp = 1003\<rparr>]))) = [(1, 6)]
   \<and> active_groups (perform_total_cleanup obliging [1]
        (bot_with {1} [\<lparr>message_id = 6, chat_id = 1, timestamp = 1003\<rparr>])) = {1}
   \<and> messages (perform_total_cleanup obliging [1]
        (bot_with {1} [\<lparr>message_id = 6, chat_id = 1, timestamp = 1003\<rparr>]))
       = [\<lparr>message_id = 902, chat_id = 1, timestamp = 172800001002\<rparr>]"
proof -
  have "snapshot_of [1] (bot_with {1} [\<lparr>message_id = 5, chat_id = 1, timestamp = 1000\<rparr>])"
    by (simp add: snapshot_of_def bot_with_def)
  moreover have "chat_limits obliging 1 [1]
      (bot_with {1} [\<lparr>message_id = 5, chat_id = 1, timestamp = 1000\<rparr>]) = [1000]"
    by code_simp
  moreover have "delete_calls (events (perform_total_cleanup obliging [1]
        (bot_with {1} [\<lparr>message_id = 5, chat_id = 1, timestamp = 1000\<rparr>]))) = []"
    by code_simp
  moreover have "active_groups (perform_total_cleanup obliging [1]
        (bot_with {1} [\<lparr>message_id = 5, chat_id = 1, timestamp = 1000\<rparr>])) = {1}"
    by code_simp
  moreover have "deletion_limit obliging (step (cleanup_chats obliging [1]
        (bot_with {1} [\<lparr>message_id = 5, chat_id = 1, timestamp = 1000\<rparr>]))) = 1002"
    by code_simp
  moreover have "messages (perform_total_cleanup obliging [1]
        (bot_with {1} [\<lparr>message_id = 5, chat_id = 1, timestamp = 1000\<rparr>]))
       = [\<lparr>message_id = 901, chat_id = 1, timestamp = 172800001001\<rparr>]"
    by code_simp
  moreover have "deletion_limit obliging (step (cleanup_chats obliging [1]
        (bot_with {1} [\<lparr>message_id = 6, chat_id = 1, timestamp = 1003\<rparr>]))) = 1003"
    by code_simp
  moreover have "delete_calls (events (perform_total_cleanup obliging [1]
        (bot_with {1} [\<lparr>message_id = 6, chat_id = 1, timestamp = 1003\<rparr>]))) = [(1, 6)]"
    by code_simp
  moreover have "active_groups (perform_total_cleanup obliging [1]
        (bot_with {1} [\<lparr>message_id = 6, chat_id = 1, timestamp = 1003\<rparr>])) = {1}"
    by code_simp
  moreover have "messages (perform_total_cleanup obliging [1]
        (bot_with {1} [\<lparr>message_id = 6, chat_id = 1, timestamp = 1003\<rparr>]))
       = [\<lparr>message_id = 902, chat_id = 1, timestamp = 172800001002\<rparr>]"
    by code_simp
  ultimately show ?thesis by simp
qed

text \<open>
  The condition on the reports, where the clock stands still: every deletion limit of
  the pass is 1000, the record of chat 1 has the timestamp 1000 and chat 1 is not
  abandoned, but the report sent to chat 2 comes back with the message id 5, and the
  ledger, keyed by \<^verbatim>\<open>message_id\<close> alone, overwrites the record with it.
\<close>

lemma record_at_cutoff_overwritten_by_report:
  "snapshot_of [1, 2] (bot_with {1, 2} [\<lparr>message_id = 5, chat_id = 1, timestamp = 1000\<rparr>])
   \<and> (\<forall>n. deletion_limit reusing_message_id n = 1000)
   \<and> active_groups (perform_total_cleanup reusing_message_id [1, 2]
        (bot_with {1, 2} [\<lparr>message_id = 5, chat_id = 1, timestamp = 1000\<rparr>])) = {1, 2}
   \<and> messages (perform_total_cleanup reusing_message_id [1, 2]
        (bot_with {1, 2} [\<lparr>message_id = 5, chat_id = 1, timestamp = 1000\<rparr>]))
       = [\<lparr>message_id = 5, chat_id = 2, timestamp = 172800001000\<rparr>,
          \<lparr>message_id = 901, chat_id = 1, timestamp = 172800001000\<rparr>]
   \<and> \<lparr>message_id = 5, chat_id = 1, timestamp = 1000\<rparr>
        \<notin> set (messages (perform_total_cleanup reusing_message_id [1, 2]
              (bot_with {1, 2} [\<lparr>message_id = 5, chat_id = 1, timestamp = 1000\<rparr>])))"
proof -
  have "\<forall>n. deletion_limit reusing_message_id n = 1000"
    by (simp add: deletion_limit_def reusing_message_id_def frozen_clock_def)
  moreover have "active_groups (perform_total_cleanup reusing_message_id [1, 2]
        (bot_with {1, 2} [\<lparr>message_id = 5, chat_id = 1, timestamp = 1000\<rparr>])) = {1, 2}"
    by code_simp
  moreover have m: "messages (perform_total_cleanup reusing_message_id [1, 2]
        (bot_with {1, 2} [\<lparr>message_id = 5, chat_id = 1, timestamp = 1000\<rparr>]))
       = [\<lparr>message_id = 5, chat_id = 2, timestamp = 172800001000\<rparr>,
          \<lparr>message_id = 901, chat_id = 1, timestamp = 172800001000\<rparr>]"
    by code_simp
  moreover have "snapshot_of [1, 2]
      (bot_with {1, 2} [\<lparr>message_id = 5, chat_id = 1, timestamp = 1000\<rparr>])"
    by (auto simp: snapshot_of_def bot_with_def)
  ultimately show ?thesis
    by (simp only: m) simp
qed

end
